theory Spec2Isabelle
  imports Main "HOL-Library.Word" "HOL-Library.Char_ord" "HOL-Library.List_Lexorder"
    "HOL-Library.Sublist" "HOL-Library.AList"
begin

section \<open>Strings and path names\<close>

text \<open>
  File names are modelled as ASCII strings (lists of \<^typ>\<open>char\<close>), a path as the list of
  its segments below the file system's root. Paths are compared segment by segment and
  characters by their code, as \<^verbatim>\<open>pathlib\<close> does for POSIX paths.
\<close>

type_synonym byte = "8 word"
type_synonym path = "string list"

text \<open>\<^verbatim>\<open>str.lower\<close> on ASCII text.\<close>

definition lower_char :: "char \<Rightarrow> char" where
  "lower_char c =
     (if CHR ''A'' \<le> c \<and> c \<le> CHR ''Z'' then char_of (of_char c + (32::nat)) else c)"

definition lower :: "string \<Rightarrow> string" where
  "lower s = map lower_char s"

text \<open>\<^verbatim>\<open>sub in s\<close>, \<^verbatim>\<open>s.index(sub)\<close> and \<^verbatim>\<open>s.rindex(sub)\<close>: the lowest and the highest
  position at which \<open>sub\<close> occurs; \<open>None\<close> is Python's \<^verbatim>\<open>ValueError\<close>.\<close>

fun str_index :: "string \<Rightarrow> string \<Rightarrow> nat option" where
  "str_index sub [] = (if sub = [] then Some 0 else None)"
| "str_index sub (c # s) =
     (if prefix sub (c # s) then Some 0 else map_option Suc (str_index sub s))"

fun str_rindex :: "string \<Rightarrow> string \<Rightarrow> nat option" where
  "str_rindex sub [] = (if sub = [] then Some 0 else None)"
| "str_rindex sub (c # s) =
     (case str_rindex sub s of
        Some i \<Rightarrow> Some (Suc i)
      | None \<Rightarrow> if prefix sub (c # s) then Some 0 else None)"

definition str_contains :: "string \<Rightarrow> string \<Rightarrow> bool" where
  "str_contains sub s = (str_index sub s \<noteq> None)"

text \<open>\<^verbatim>\<open>s.split(c)[0]\<close> for a one-character separator.\<close>

definition split_first :: "char \<Rightarrow> string \<Rightarrow> string" where
  "split_first c s = takeWhile (\<lambda>x. x \<noteq> c) s"

text \<open>\<^verbatim>\<open>s.replace('/', '_')\<close>.\<close>

definition replace_char :: "char \<Rightarrow> char \<Rightarrow> string \<Rightarrow> string" where
  "replace_char a b s = map (\<lambda>x. if x = a then b else x) s"

text \<open>\<^verbatim>\<open>str(i)\<close> for a natural number and \<^verbatim>\<open>s.zfill(w)\<close> for an unsigned numeral.\<close>

definition digit_char :: "nat \<Rightarrow> char" where
  "digit_char d = ''0123456789'' ! d"

fun str_nat :: "nat \<Rightarrow> string" where
  "str_nat n = (if n < 10 then [digit_char n] else str_nat (n div 10) @ [digit_char (n mod 10)])"

declare str_nat.simps [simp del]

definition zfill :: "nat \<Rightarrow> string \<Rightarrow> string" where
  "zfill w s = replicate (w - length s) (CHR ''0'') @ s"

text \<open>\<^verbatim>\<open>PurePath.name\<close>, \<^verbatim>\<open>.parent\<close>, \<^verbatim>\<open>.suffix\<close> and \<^verbatim>\<open>.stem\<close>. The suffix starts at the
  last dot of the name, unless that dot is the first or the last character.\<close>

definition name :: "path \<Rightarrow> string" where
  "name p = (if p = [] then [] else last p)"

definition parent :: "path \<Rightarrow> path" where
  "parent p = butlast p"

text \<open>\<^verbatim>\<open>dir / name\<close> for a name without separator: \<^verbatim>\<open>pathlib\<close> drops an empty segment and
  the segment \<^verbatim>\<open>.\<close>, so that \<^verbatim>\<open>dir / ''\<close> is \<^verbatim>\<open>dir\<close> itself; every other name, also
  \<^verbatim>\<open>..\<close>, is added as a segment.\<close>

definition path_join :: "path \<Rightarrow> string \<Rightarrow> path" where
  "path_join dir nm = (if nm = [] \<or> nm = ''.'' then dir else dir @ [nm])"

definition last_dot :: "string \<Rightarrow> nat option" where
  "last_dot s = str_rindex ''.'' s"

definition suffix_of :: "path \<Rightarrow> string" where
  "suffix_of p =
     (case last_dot (name p) of
        None \<Rightarrow> []
      | Some i \<Rightarrow> if 0 < i \<and> i < length (name p) - 1 then drop i (name p) else [])"

definition stem :: "path \<Rightarrow> string" where
  "stem p =
     (case last_dot (name p) of
        None \<Rightarrow> name p
      | Some i \<Rightarrow> if 0 < i \<and> i < length (name p) - 1 then take i (name p) else name p)"

section \<open>The file system\<close>

text \<open>
  The file system is an association list from paths to nodes; its order is the order in
  which the operating system lists entries. The root (the empty path) is always a
  directory. Every operation returns either the exception Python raises or the new file
  system.
\<close>

datatype node = File "byte list" | Dir

type_synonym filesystem = "(path \<times> node) list"

datatype exn =
    FileNotFoundError | IsADirectoryError | NotADirectoryError | FileExistsError
  | SameFileError | ShutilError | OSError | ValueError | KeyError | ExtractError nat

definition node_at :: "filesystem \<Rightarrow> path \<Rightarrow> node option" where
  "node_at fs p = (if p = [] then Some Dir else map_of fs p)"

definition path_exists :: "filesystem \<Rightarrow> path \<Rightarrow> bool" where
  "path_exists fs p = (node_at fs p \<noteq> None)"

definition is_dir :: "filesystem \<Rightarrow> path \<Rightarrow> bool" where
  "is_dir fs p = (node_at fs p = Some Dir)"

definition is_file :: "filesystem \<Rightarrow> path \<Rightarrow> bool" where
  "is_file fs p = (case node_at fs p of Some (File c) \<Rightarrow> True | _ \<Rightarrow> False)"

text \<open>\<^verbatim>\<open>open(p, 'rb').read()\<close>.\<close>

definition open_rb :: "filesystem \<Rightarrow> path \<Rightarrow> exn + byte list" where
  "open_rb fs p =
     (case node_at fs p of
        Some (File c) \<Rightarrow> Inr c
      | Some Dir \<Rightarrow> Inl IsADirectoryError
      | None \<Rightarrow> Inl FileNotFoundError)"

section \<open>Header Sniffer\<close>

datatype ArchiveType = SEVEN_ZIP | ZIP | RAR | UNKNOWN

definition SEVEN_ZIP_HEADER :: string where "SEVEN_ZIP_HEADER = ''377abcaf271c''"
definition ZIP_HEADER :: string where "ZIP_HEADER = ''504b03''"
definition RAR_HEADER :: string where "RAR_HEADER = ''526172''"
definition HEADER_BYTES :: nat where "HEADER_BYTES = 20"

text \<open>\<^verbatim>\<open>binascii.b2a_hex\<close>: two lower-case hexadecimal digits for each byte.\<close>

definition hex_digit :: "nat \<Rightarrow> char" where
  "hex_digit d = ''0123456789abcdef'' ! d"

definition hex_byte :: "byte \<Rightarrow> string" where
  "hex_byte b = [hex_digit (unat b div 16), hex_digit (unat b mod 16)]"

definition b2a_hex :: "byte list \<Rightarrow> string" where
  "b2a_hex bs = concat (map hex_byte bs)"

text \<open>\<^verbatim>\<open>FileHelper.get_file_header\<close>: the first \<open>HEADER_BYTES\<close> bytes as a hexadecimal
  string, \<open>None\<close> when the file cannot be read.\<close>

definition get_file_header :: "filesystem \<Rightarrow> path \<Rightarrow> string option" where
  "get_file_header fs p =
     (case open_rb fs p of
        Inl e \<Rightarrow> None
      | Inr c \<Rightarrow> Some (b2a_hex (take HEADER_BYTES c)))"

text \<open>\<^verbatim>\<open>ArchiveHandler.detect_archive_type\<close>.\<close>

definition detect_archive_type :: "filesystem \<Rightarrow> path \<Rightarrow> ArchiveType" where
  "detect_archive_type fs p =
     (case get_file_header fs p of
        None \<Rightarrow> UNKNOWN
      | Some header \<Rightarrow>
          if header = [] then UNKNOWN
          else if prefix SEVEN_ZIP_HEADER header then SEVEN_ZIP
          else if prefix ZIP_HEADER header then ZIP
          else if prefix RAR_HEADER header then RAR
          else UNKNOWN)"

text \<open>The magic numbers as bytes: what the three header strings spell in hexadecimal.\<close>

definition magic_7z :: "byte list" where "magic_7z = [0x37, 0x7a, 0xbc, 0xaf, 0x27, 0x1c]"
definition magic_zip :: "byte list" where "magic_zip = [0x50, 0x4b, 0x03]"
definition magic_rar :: "byte list" where "magic_rar = [0x52, 0x61, 0x72]"

section \<open>File system operations\<close>

text \<open>
  An operation that changes the file system returns the exception it raises (if any) and
  the file system it leaves: an operation that fails leaves what it did before failing.
  \<open>then_do\<close> runs the next step unless the previous one raised; \<open>and_then\<close> does the
  same for steps that return a value.
\<close>

type_synonym outcome = "exn option \<times> filesystem"

definition then_do :: "outcome \<Rightarrow> (filesystem \<Rightarrow> outcome) \<Rightarrow> outcome" where
  "then_do r f = (case r of (Some e, fs) \<Rightarrow> (Some e, fs) | (None, fs) \<Rightarrow> f fs)"

definition and_then :: "exn + 'a \<Rightarrow> ('a \<Rightarrow> exn + 'b) \<Rightarrow> exn + 'b" where
  "and_then r f = (case r of Inl e \<Rightarrow> Inl e | Inr x \<Rightarrow> f x)"

text \<open>\<^verbatim>\<open>open(p, 'wb')\<close> followed by writing \<open>b\<close>: creates or truncates the file.\<close>

definition open_wb :: "path \<Rightarrow> byte list \<Rightarrow> filesystem \<Rightarrow> outcome" where
  "open_wb p b fs =
     (if is_dir fs p then (Some IsADirectoryError, fs)
      else if \<not> is_dir fs (parent p) then
        (Some (if path_exists fs (parent p) then NotADirectoryError else FileNotFoundError), fs)
      else (None, AList.update p (File b) fs))"

text \<open>\<^verbatim>\<open>Path.mkdir(parents=True, exist_ok=True)\<close>: a file at the path or above it raises;
  otherwise the missing directories are created, from the root down.\<close>

definition make_dirs :: "path list \<Rightarrow> filesystem \<Rightarrow> filesystem" where
  "make_dirs qs fs = fold (\<lambda>q fs. if path_exists fs q then fs else AList.update q Dir fs) qs fs"

definition mkdir_parents :: "path \<Rightarrow> filesystem \<Rightarrow> outcome" where
  "mkdir_parents p fs =
     (if is_file fs p then (Some FileExistsError, fs)
      else if list_ex (is_file fs) (prefixes p) then (Some NotADirectoryError, fs)
      else (None, make_dirs (prefixes p) fs))"

text \<open>\<^verbatim>\<open>Path.unlink\<close> and \<^verbatim>\<open>shutil.rmtree\<close>.\<close>

definition unlink :: "path \<Rightarrow> filesystem \<Rightarrow> outcome" where
  "unlink p fs =
     (case node_at fs p of
        Some (File c) \<Rightarrow> (None, AList.delete p fs)
      | Some Dir \<Rightarrow> (Some IsADirectoryError, fs)
      | None \<Rightarrow> (Some FileNotFoundError, fs))"

definition remove_tree :: "path \<Rightarrow> filesystem \<Rightarrow> filesystem" where
  "remove_tree p fs = filter (\<lambda>(q, n). \<not> prefix p q) fs"

definition rmtree :: "path \<Rightarrow> filesystem \<Rightarrow> outcome" where
  "rmtree p fs =
     (case node_at fs p of
        Some Dir \<Rightarrow> (None, remove_tree p fs)
      | Some (File c) \<Rightarrow> (Some NotADirectoryError, fs)
      | None \<Rightarrow> (Some FileNotFoundError, fs))"

text \<open>\<^verbatim>\<open>Path.iterdir\<close> (the entries directly below a directory) and \<^verbatim>\<open>Path.rglob('*')\<close>
  (everything below it; nothing when the path is not a directory).\<close>

definition iterdir :: "filesystem \<Rightarrow> path \<Rightarrow> exn + path list" where
  "iterdir fs d =
     (case node_at fs d of
        Some Dir \<Rightarrow> Inr (filter (\<lambda>p. p \<noteq> [] \<and> parent p = d) (map fst fs))
      | Some (File c) \<Rightarrow> Inl NotADirectoryError
      | None \<Rightarrow> Inl FileNotFoundError)"

definition rglob :: "filesystem \<Rightarrow> path \<Rightarrow> path list" where
  "rglob fs d = (if is_dir fs d then filter (strict_prefix d) (map fst fs) else [])"

text \<open>\<^verbatim>\<open>shutil.copy2(src, dst)\<close>: into the directory \<open>dst\<close> under the source's name, or
  onto the file \<open>dst\<close>.\<close>

definition copy2 :: "path \<Rightarrow> path \<Rightarrow> filesystem \<Rightarrow> outcome" where
  "copy2 src dst fs =
     (let real_dst = (if is_dir fs dst then dst @ [name src] else dst) in
      if src = real_dst then (Some SameFileError, fs)
      else
        (case open_rb fs src of
           Inl e \<Rightarrow> (Some e, fs)
         | Inr c \<Rightarrow> open_wb real_dst c fs))"

text \<open>
  \<^verbatim>\<open>shutil.move(src, dst)\<close> with the semantics of a POSIX rename: into the directory
  \<open>dst\<close> under the source's name (refused when that name is taken), otherwise onto
  \<open>dst\<close>; a file may replace a file, a directory cannot be moved below itself, and the
  destination's parent must be a directory. The operating system may refuse a move
  for reasons outside the model (permissions, locks, a full disk): \<open>refused src dst\<close>
  tells whether it does, and the move then fails with an \<^verbatim>\<open>OSError\<close> before anything is
  written. When only the rename is refused, \<^verbatim>\<open>shutil.move\<close> falls back to copying the
  source and deleting it; where this succeeds the result is the one of the rename, and a
  fallback that fails half-way, leaving a partial copy at the destination, is outside the
  model.
\<close>

definition rename_tree :: "path \<Rightarrow> path \<Rightarrow> filesystem \<Rightarrow> filesystem" where
  "rename_tree src dst fs =
     map (\<lambda>(q, n). if prefix src q then (dst @ drop (length src) q, n) else (q, n))
       (remove_tree dst fs)"

definition shutil_move ::
  "(path \<Rightarrow> path \<Rightarrow> bool) \<Rightarrow> path \<Rightarrow> path \<Rightarrow> filesystem \<Rightarrow> outcome" where
  "shutil_move refused src dst fs =
     (if is_dir fs dst \<and> src = dst then (None, fs)
      else
        let real_dst = (if is_dir fs dst then dst @ [name src] else dst) in
        if is_dir fs dst \<and> path_exists fs real_dst then (Some ShutilError, fs)
        else if \<not> path_exists fs src then (Some FileNotFoundError, fs)
        else if src = [] \<or> prefix src real_dst then (Some ShutilError, fs)
        else if \<not> is_dir fs (parent real_dst) then (Some FileNotFoundError, fs)
        else if path_exists fs real_dst \<and> \<not> (is_file fs real_dst \<and> is_file fs src)
          then (Some OSError, fs)
        else if refused src real_dst then (Some OSError, fs)
        else (None, rename_tree src real_dst fs))"

section \<open>File helper\<close>

text \<open>\<^verbatim>\<open>FileHelper.make_directory\<close>: removes what is at the path, then creates the
  directory.\<close>

definition make_directory :: "path \<Rightarrow> filesystem \<Rightarrow> outcome" where
  "make_directory p fs =
     (if path_exists fs p then
        (if is_file fs p then then_do (unlink p fs) (mkdir_parents p)
         else then_do (rmtree p fs) (mkdir_parents p))
      else mkdir_parents p fs)"

text \<open>\<^verbatim>\<open>FileHelper.contains_files\<close> and \<^verbatim>\<open>FileHelper.get_file_list\<close>.\<close>

definition contains_files :: "filesystem \<Rightarrow> path \<Rightarrow> bool" where
  "contains_files fs directory =
     (if \<not> path_exists fs directory \<or> \<not> is_dir fs directory then False
      else list_ex (is_file fs) (rglob fs directory))"

definition get_file_list :: "filesystem \<Rightarrow> path \<Rightarrow> path list" where
  "get_file_list fs directory = filter (is_file fs) (rglob fs directory)"

text \<open>\<^verbatim>\<open>FileHelper.merge_files\<close>: the output is opened for writing, then the parts are
  read in sorted order and appended. A failure leaves what was written so far.\<close>

definition append_bytes :: "path \<Rightarrow> byte list \<Rightarrow> filesystem \<Rightarrow> filesystem" where
  "append_bytes p b fs =
     (case node_at fs p of
        Some (File c) \<Rightarrow> AList.update p (File (c @ b)) fs
      | _ \<Rightarrow> AList.update p (File b) fs)"

fun merge_loop :: "path list \<Rightarrow> path \<Rightarrow> filesystem \<Rightarrow> outcome" where
  "merge_loop [] output_path fs = (None, fs)"
| "merge_loop (file_path # rest) output_path fs =
     (case open_rb fs file_path of
        Inl e \<Rightarrow> (Some e, fs)
      | Inr c \<Rightarrow> merge_loop rest output_path (append_bytes output_path c fs))"

definition merge_files :: "path list \<Rightarrow> path \<Rightarrow> filesystem \<Rightarrow> outcome" where
  "merge_files file_list output_path fs =
     then_do (open_wb output_path [] fs) (merge_loop (sort file_list) output_path)"

section \<open>Archive Extractor\<close>

text \<open>\<^verbatim>\<open>ArchiveInfo\<close>; the fields are \<^verbatim>\<open>path\<close>, \<^verbatim>\<open>type\<close>, \<^verbatim>\<open>parts\<close> and \<^verbatim>\<open>password\<close>.\<close>

record ArchiveInfo =
  ai_path :: path
  ai_type :: ArchiveType
  ai_parts :: "path list"
  ai_password :: string

text \<open>
  The codecs (\<^verbatim>\<open>py7zr\<close>, \<^verbatim>\<open>pyzipper\<close>, \<^verbatim>\<open>rarfile\<close>) are libraries outside the repository. A
  codec is a parameter of the model: from the archive type, the file system (a codec may
  follow the volumes of a multi-part archive by itself), the archive's path and the
  password it gives the entries it unpacks, as paths relative to the output directory
  with their contents, and the exception it ends with, if any. The entries are written
  before the exception is raised, so a failed extraction may leave partial output.
\<close>

type_synonym codec =
  "ArchiveType \<Rightarrow> filesystem \<Rightarrow> path \<Rightarrow> string \<Rightarrow> (path \<times> byte list) list \<times> exn option"

fun write_entries :: "path \<Rightarrow> (path \<times> byte list) list \<Rightarrow> filesystem \<Rightarrow> outcome" where
  "write_entries output_dir [] fs = (None, fs)"
| "write_entries output_dir ((rel, content) # rest) fs =
     then_do
       (then_do (mkdir_parents (parent (output_dir @ rel)) fs) (open_wb (output_dir @ rel) content))
       (write_entries output_dir rest)"

text \<open>\<^verbatim>\<open>extract_7z\<close>, \<^verbatim>\<open>extract_zip\<close> and \<^verbatim>\<open>extract_rar\<close>: open the archive and extract all
  of it into the output directory.\<close>

definition extractall ::
  "codec \<Rightarrow> ArchiveType \<Rightarrow> path \<Rightarrow> path \<Rightarrow> string \<Rightarrow> filesystem \<Rightarrow> outcome" where
  "extractall codec t archive_path output_dir password fs =
     (case open_rb fs archive_path of
        Inl e \<Rightarrow> (Some e, fs)
      | Inr c \<Rightarrow>
          (case codec t fs archive_path password of
             (entries, failure) \<Rightarrow>
               (case write_entries output_dir entries fs of
                  (Some e, fs') \<Rightarrow> (Some e, fs')
                | (None, fs') \<Rightarrow> (failure, fs'))))"

text \<open>The lines \<^verbatim>\<open>extract_archive\<close> and the three extraction functions write to the log
  of their module, in the order in which they are written.\<close>

datatype log_line =
    UnsupportedArchiveType ArchiveType
  | AttemptingMultiPartDirectly nat
  | UsingArchiveFile path
  | ExtractingType ArchiveType
  | ExtractingArchive ArchiveType path path
  | DirectExtractionSuccessful
  | DirectExtractionFailedTryingMerged exn
  | MergingArchiveParts
  | MergedFileCreated path
  | ExtractingFromMergedFile
  | ExtractionFromMergedSuccessful
  | RemovingMergedFile path
  | FailedToExtractArchive path exn

text \<open>The second try of \<^verbatim>\<open>extract_archive\<close>: the body of the inner \<^verbatim>\<open>try\<close> and its
  \<^verbatim>\<open>finally\<close> clause. An exception raised by the clean-up replaces the body's.\<close>

definition merged_path_of :: "ArchiveInfo \<Rightarrow> path \<Rightarrow> path" where
  "merged_path_of archive_info output_dir = output_dir @ [''merged'' @ suffix_of (ai_path archive_info)]"

definition merge_and_extract ::
  "codec \<Rightarrow> ArchiveInfo \<Rightarrow> path \<Rightarrow> filesystem \<Rightarrow> exn option \<times> filesystem \<times> log_line list" where
  "merge_and_extract codec archive_info output_dir fs =
     (let merged_path = merged_path_of archive_info output_dir in
      case merge_files (ai_parts archive_info) merged_path fs of
        (Some e, fs1) \<Rightarrow> (Some e, fs1, [])
      | (None, fs1) \<Rightarrow>
          (case extractall codec (ai_type archive_info) merged_path output_dir
                  (ai_password archive_info) fs1 of
             (Some e, fs2) \<Rightarrow>
               (Some e, fs2,
                [MergedFileCreated merged_path, ExtractingFromMergedFile,
                 ExtractingArchive (ai_type archive_info) merged_path output_dir])
           | (None, fs2) \<Rightarrow>
               (None, fs2,
                [MergedFileCreated merged_path, ExtractingFromMergedFile,
                 ExtractingArchive (ai_type archive_info) merged_path output_dir,
                 ExtractionFromMergedSuccessful])))"

definition remove_merged ::
  "path \<Rightarrow> exn option \<times> filesystem \<times> log_line list \<Rightarrow> exn option \<times> filesystem \<times> log_line list" where
  "remove_merged merged_path r =
     (case r of
        (failure, fs, lg) \<Rightarrow>
          if path_exists fs merged_path then
            (case unlink merged_path fs of
               (Some e, fs') \<Rightarrow> (Some e, fs', lg @ [RemovingMergedFile merged_path])
             | (None, fs') \<Rightarrow> (failure, fs', lg @ [RemovingMergedFile merged_path]))
          else (failure, fs, lg))"

text \<open>The outer \<^verbatim>\<open>except\<close> clause of \<^verbatim>\<open>extract_archive\<close>: log the failure and raise it
  again.\<close>

definition log_failure ::
  "path \<Rightarrow> exn option \<times> filesystem \<times> log_line list \<Rightarrow> exn option \<times> filesystem \<times> log_line list" where
  "log_failure p r =
     (case r of
        (Some e, fs, lg) \<Rightarrow> (Some e, fs, lg @ [FailedToExtractArchive p e])
      | (None, fs, lg) \<Rightarrow> (None, fs, lg))"

text \<open>\<^verbatim>\<open>ArchiveHandler.extract_archive\<close>. The result is the exception raised (if any), the
  file system afterwards, and the lines logged.\<close>

definition ensure_output_dir :: "path \<Rightarrow> filesystem \<Rightarrow> outcome" where
  "ensure_output_dir output_dir fs =
     (if \<not> path_exists fs output_dir then make_directory output_dir fs else (None, fs))"

definition extract_archive ::
  "codec \<Rightarrow> ArchiveInfo \<Rightarrow> path \<Rightarrow> filesystem \<Rightarrow> exn option \<times> filesystem \<times> log_line list" where
  "extract_archive codec archive_info output_dir fs0 =
     (case ensure_output_dir output_dir fs0 of
        (Some e, fs) \<Rightarrow> (Some e, fs, [])
      | (None, fs) \<Rightarrow>
          if ai_type archive_info = UNKNOWN then
            (None, fs, [UnsupportedArchiveType (ai_type archive_info)])
          else
            let n = length (ai_parts archive_info);
                archive_path = (if n > 1 then ai_parts archive_info ! 0 else ai_path archive_info);
                lg = (if n > 1 then [AttemptingMultiPartDirectly n] else []) @
                     [UsingArchiveFile archive_path, ExtractingType (ai_type archive_info),
                      ExtractingArchive (ai_type archive_info) archive_path output_dir]
            in
            log_failure (ai_path archive_info)
              (case extractall codec (ai_type archive_info) archive_path output_dir
                      (ai_password archive_info) fs of
                 (None, fs1) \<Rightarrow> (None, fs1, lg @ [DirectExtractionSuccessful])
               | (Some e, fs1) \<Rightarrow>
                   if n \<le> 1 then (Some e, fs1, lg)
                   else
                     (case remove_merged (merged_path_of archive_info output_dir)
                             (merge_and_extract codec archive_info output_dir fs1) of
                        (failure, fs2, lg2) \<Rightarrow>
                          (failure, fs2,
                           lg @ [DirectExtractionFailedTryingMerged e, MergingArchiveParts] @ lg2))))"

section \<open>Multi-part naming and the Fragment Collector\<close>

text \<open>\<^verbatim>\<open>UnzipService._is_multipart_archive\<close>. The first two tests try the suffixes
  \<^verbatim>\<open>.7z.001\<close> to \<^verbatim>\<open>.7z.998\<close> and \<^verbatim>\<open>.zip.001\<close> to \<^verbatim>\<open>.zip.998\<close>.\<close>

definition ends_with_part :: "string \<Rightarrow> string \<Rightarrow> bool" where
  "ends_with_part ext file_name =
     list_ex (\<lambda>i. suffix (ext @ zfill 3 (str_nat i)) file_name) [1..<999]"

definition is_multipart_archive :: "path \<Rightarrow> bool" where
  "is_multipart_archive file_path =
     (let file_name = lower (name file_path) in
      ends_with_part ''.7z.'' file_name \<or>
      ends_with_part ''.zip.'' file_name \<or>
      (prefix ''part'' file_name \<and> suffix ''.rar'' file_name) \<or>
      str_contains ''.part'' file_name)"

text \<open>\<^verbatim>\<open>UnzipService._collect_multipart_archive\<close>. The base name is cut from the
  lower-cased file name; \<^verbatim>\<open>index\<close> and \<^verbatim>\<open>rindex\<close> raise \<^verbatim>\<open>ValueError\<close> when the
  separator does not occur.\<close>

definition cut_at :: "nat option \<Rightarrow> string \<Rightarrow> exn + string" where
  "cut_at pos s = (case pos of None \<Rightarrow> Inl ValueError | Some i \<Rightarrow> Inr (take i s))"

definition multipart_base_name :: "string \<Rightarrow> exn + string" where
  "multipart_base_name file_name =
     (if str_contains ''.7z.'' file_name then cut_at (str_rindex ''.7z.'' file_name) file_name
      else if str_contains ''.zip.'' file_name then cut_at (str_rindex ''.zip.'' file_name) file_name
      else if str_contains ''.part'' file_name \<and> suffix ''.rar'' file_name
        then cut_at (str_index ''.part'' file_name) file_name
      else cut_at (str_rindex ''.part'' file_name) file_name)"

definition matches_base :: "string \<Rightarrow> path \<Rightarrow> bool" where
  "matches_base base_name f =
     ((prefix (base_name @ ''.7z.'') (lower (name f)) \<or>
       prefix (base_name @ ''.zip.'') (lower (name f)) \<or>
       prefix (base_name @ ''.part'') (lower (name f)) \<or>
       (prefix base_name (lower (name f)) \<and> str_contains ''.part'' (lower (name f))))
      \<and> is_multipart_archive f)"

definition collect_multipart_archive :: "filesystem \<Rightarrow> path \<Rightarrow> exn + path list" where
  "collect_multipart_archive fs file_path =
     and_then (multipart_base_name (lower (name file_path))) (\<lambda>base_name.
     and_then (iterdir fs (parent file_path)) (\<lambda>entries.
       Inr (sort (filter (matches_base base_name) entries))))"

text \<open>A closed form of the numbered suffixes, used to evaluate \<open>ends_with_part\<close>: three
  decimal digits other than \<^verbatim>\<open>000\<close> and \<^verbatim>\<open>999\<close>.\<close>

definition is_part_number :: "string \<Rightarrow> bool" where
  "is_part_number d =
     (length d = 3 \<and> list_all (\<lambda>c. c \<in> set ''0123456789'') d \<and> d \<noteq> ''000'' \<and> d \<noteq> ''999'')"

section \<open>Reorganization Engine\<close>

datatype DatabaseType = LOIBUS | SEMAO | VAMVIDEO | XLIXLI

text \<open>\<^verbatim>\<open>PathConfig\<close> with the one field of its \<^verbatim>\<open>MoveConfig\<close>.\<close>

record PathConfig =
  source_dir :: path
  unzip_temp_dir :: path
  target_temp_dir :: path
  target_dir :: path
  skip_parent_levels :: int

text \<open>
  \<^verbatim>\<open>UnzipService\<close>. Besides its configuration the service holds what it reads from outside
  the repository and never writes: the \<^verbatim>\<open>Pieces\<close> collection (a document is a dictionary
  of strings), the codecs behind its archive handler, and the operating system's
  refusals of a rename. The \<^verbatim>\<open>UnzipHistory\<close> collection, which the service writes, is
  state: the list of its records in the order they were saved (without the date).
\<close>

record UnzipService =
  db_type :: DatabaseType
  default_password :: string
  path_config :: PathConfig
  pieces_dao :: "string \<Rightarrow> (string \<times> string) list option"
  archive_handler :: codec
  rename_refused :: "path \<Rightarrow> path \<Rightarrow> bool"

record HistoryRecord =
  h_id :: string
  h_src_path :: path
  h_dst_path :: path

type_synonym ledger = "HistoryRecord list"

text \<open>\<^verbatim>\<open>UnzipHistoryDao\<close>.\<close>

definition query_history_by_id :: "ledger \<Rightarrow> string \<Rightarrow> HistoryRecord option" where
  "query_history_by_id history x = find (\<lambda>h. h_id h = x) history"

definition query_history_by_src_path :: "ledger \<Rightarrow> path \<Rightarrow> HistoryRecord option" where
  "query_history_by_src_path history src_path = find (\<lambda>h. h_src_path h = src_path) history"

definition save_history :: "string \<Rightarrow> path \<Rightarrow> path \<Rightarrow> ledger \<Rightarrow> ledger" where
  "save_history x src_path dst_path history =
     history @ [\<lparr>h_id = x, h_src_path = src_path, h_dst_path = dst_path\<rparr>]"

text \<open>\<^verbatim>\<open>dict.get(key, default)\<close> and \<^verbatim>\<open>PiecesDao.query_pieces_unzip_key\<close>.\<close>

definition dict_get :: "(string \<times> string) list \<Rightarrow> string \<Rightarrow> string \<Rightarrow> string" where
  "dict_get d k dflt = (case map_of d k of None \<Rightarrow> dflt | Some v \<Rightarrow> v)"

definition query_pieces_unzip_key :: "UnzipService \<Rightarrow> string \<Rightarrow> string" where
  "query_pieces_unzip_key svc x =
     (case pieces_dao svc x of
        None \<Rightarrow> []
      | Some pieces \<Rightarrow>
          if pieces = [] then []
          else dict_get pieces ''unzip_key'' (dict_get pieces ''open_key'' []))"

definition archive_password :: "UnzipService \<Rightarrow> string \<Rightarrow> string" where
  "archive_password svc x =
     (if query_pieces_unzip_key svc x = [] then default_password svc
      else query_pieces_unzip_key svc x)"

text \<open>\<^verbatim>\<open>_get_path_id\<close> and \<^verbatim>\<open>_generate_folder_name\<close>.\<close>

definition get_path_id :: "filesystem \<Rightarrow> path \<Rightarrow> string" where
  "get_path_id fs p = (if is_dir fs p then name p else split_first (CHR ''_'') (stem p))"

definition generate_folder_name :: "UnzipService \<Rightarrow> string \<Rightarrow> string" where
  "generate_folder_name svc x =
     (case pieces_dao svc x of
        None \<Rightarrow> x
      | Some pieces \<Rightarrow>
          if pieces = [] then x
          else
            let title = dict_get pieces ''title'' (dict_get pieces ''loi_title'' []);
                folder_name = replace_char (CHR ''/'') (CHR ''_'') (''['' @ x @ ''] '' @ title)
            in if suffix ''.'' folder_name then butlast folder_name else folder_name)"

text \<open>\<^verbatim>\<open>_is_all_processed\<close>: for the video database, whether the target folder holds an
  entry for every resolution its name asks for.\<close>

definition resolutions :: "(string \<times> string) list" where
  "resolutions =
     [(''1k'', ''1080''), (''1K'', ''1080''), (''1080'', ''1080''),
      (''2k'', ''2k''), (''2K'', ''2k''), (''4k'', ''4k''), (''4K'', ''4k'')]"

text \<open>The set \<^verbatim>\<open>required_resolutions\<close> that \<^verbatim>\<open>_is_all_processed\<close> builds from the folder
  name, as a list without duplicates.\<close>

definition required_resolutions :: "string \<Rightarrow> string list" where
  "required_resolutions folder_name =
     remdups (map snd (filter (\<lambda>(res, v). str_contains res folder_name) resolutions))"

definition is_all_processed :: "UnzipService \<Rightarrow> filesystem \<Rightarrow> string \<Rightarrow> exn + bool" where
  "is_all_processed svc fs x =
     (if db_type svc \<noteq> VAMVIDEO then Inr True
      else
        let folder_name = generate_folder_name svc x;
            folder_path = path_join (target_dir (path_config svc)) folder_name
        in
        if \<not> path_exists fs folder_path then Inr False
        else
          if length (required_resolutions folder_name) \<le> 1 then Inr True
          else
            and_then (iterdir fs folder_path) (\<lambda>items.
              Inr (set (filter (\<lambda>res. list_ex (\<lambda>item. str_contains res (name item)) items)
                          (required_resolutions folder_name))
                   = set (required_resolutions folder_name))))"

text \<open>\<^verbatim>\<open>_collect_archive_files\<close>: the two dictionaries, keyed by identity, in insertion
  order. An entry of the source root is skipped when the history knows its path or its
  identity and \<^verbatim>\<open>_is_all_processed\<close> holds.\<close>

fun collect_items ::
  "UnzipService \<Rightarrow> filesystem \<Rightarrow> ledger \<Rightarrow> path list \<Rightarrow>
   (string \<times> path list) list \<times> (string \<times> path) list \<Rightarrow>
   exn + (string \<times> path list) list \<times> (string \<times> path) list" where
  "collect_items svc fs history [] acc = Inr acc"
| "collect_items svc fs history (item # rest) (id_files, id_sources) =
     (let x = get_path_id fs item;
          add = (AList.update x (if is_file fs item then [item] else rglob fs item) id_files,
                 AList.update x item id_sources)
      in
      if query_history_by_src_path history item \<noteq> None \<or> query_history_by_id history x \<noteq> None
      then
        (case is_all_processed svc fs x of
           Inl e \<Rightarrow> Inl e
         | Inr True \<Rightarrow> collect_items svc fs history rest (id_files, id_sources)
         | Inr False \<Rightarrow> collect_items svc fs history rest add)
      else collect_items svc fs history rest add)"

definition collect_archive_files ::
  "UnzipService \<Rightarrow> filesystem \<Rightarrow> ledger \<Rightarrow>
   exn + (string \<times> path list) list \<times> (string \<times> path) list" where
  "collect_archive_files svc fs history =
     and_then (iterdir fs (source_dir (path_config svc))) (\<lambda>items.
       collect_items svc fs history items ([], []))"

text \<open>\<^verbatim>\<open>_prepare_archive_info\<close>: the dictionary from base names to archive units, in
  insertion order. A file whose base name has no unit yet starts one only when its header
  is recognised; a file whose base name has a unit is appended to that unit's parts.\<close>

definition base_name_of :: "path \<Rightarrow> string" where
  "base_name_of file_path = split_first (CHR ''.'') (stem file_path)"

fun prepare_loop ::
  "UnzipService \<Rightarrow> filesystem \<Rightarrow> string \<Rightarrow> path list \<Rightarrow> (string \<times> ArchiveInfo) list \<Rightarrow>
   (string \<times> ArchiveInfo) list" where
  "prepare_loop svc fs x [] archives = archives"
| "prepare_loop svc fs x (file_path # rest) archives =
     (case map_of archives (base_name_of file_path) of
        None \<Rightarrow>
          if detect_archive_type fs file_path \<noteq> UNKNOWN then
            prepare_loop svc fs x rest
              (AList.update (base_name_of file_path)
                 \<lparr>ai_path = file_path, ai_type = detect_archive_type fs file_path,
                  ai_parts = [file_path], ai_password = archive_password svc x\<rparr> archives)
          else prepare_loop svc fs x rest archives
      | Some archive \<Rightarrow>
          prepare_loop svc fs x rest
            (AList.update (base_name_of file_path)
               (archive\<lparr>ai_parts := ai_parts archive @ [file_path]\<rparr>) archives))"

definition prepare_archive_info ::
  "UnzipService \<Rightarrow> filesystem \<Rightarrow> string \<Rightarrow> path list \<Rightarrow> (string \<times> ArchiveInfo) list" where
  "prepare_archive_info svc fs x files = prepare_loop svc fs x (sort files) []"

text \<open>\<^verbatim>\<open>_extract_to_target_temp\<close>: a unit of a recognised type is extracted; the parts of
  a unit of type \<open>UNKNOWN\<close> are copied, except those with a multi-part name, and a failed
  copy is logged and passed over.\<close>

fun copy_parts :: "path list \<Rightarrow> path \<Rightarrow> filesystem \<Rightarrow> filesystem" where
  "copy_parts [] temp_path fs = fs"
| "copy_parts (part # rest) temp_path fs =
     (if is_multipart_archive part then copy_parts rest temp_path fs
      else
        (case copy2 part temp_path fs of
           (failure, fs') \<Rightarrow> copy_parts rest temp_path fs'))"

definition extract_to_target_temp ::
  "UnzipService \<Rightarrow> ArchiveInfo \<Rightarrow> path \<Rightarrow> filesystem \<Rightarrow> outcome" where
  "extract_to_target_temp svc archive temp_path fs =
     (if ai_type archive \<noteq> UNKNOWN then
        (case extract_archive (archive_handler svc) archive temp_path fs of
           (failure, fs', lg) \<Rightarrow> (failure, fs'))
      else (None, copy_parts (ai_parts archive) temp_path fs))"

text \<open>A part that the copy branch of \<open>extract_to_target_temp\<close> does copy: its name is no
  multi-part name, it is a file, and no directory stands at its place in the staging
  directory.\<close>

definition copyable :: "filesystem \<Rightarrow> path \<Rightarrow> path \<Rightarrow> bool" where
  "copyable fs temp_path p =
     (\<not> is_multipart_archive p \<and> is_file fs p \<and> \<not> is_dir fs (temp_path @ [name p]))"

text \<open>\<^verbatim>\<open>_move_archives_to_zip_temp\<close>: every file of the outbound staging directory that
  is an archive or has a multi-part name is moved below the item's inbound staging
  directory; what is at the destination directory, and at the destination, is removed
  first.\<close>

definition remove_existing :: "path \<Rightarrow> filesystem \<Rightarrow> outcome" where
  "remove_existing p fs =
     (if path_exists fs p then (if is_file fs p then unlink p fs else rmtree p fs) else (None, fs))"

definition move_archive_file ::
  "UnzipService \<Rightarrow> path \<Rightarrow> string \<Rightarrow> path \<Rightarrow> filesystem \<Rightarrow> outcome" where
  "move_archive_file svc temp_path x file_path fs =
     (let rel_path = drop (length temp_path) file_path;
          dst_path = path_join (unzip_temp_dir (path_config svc)) (generate_folder_name svc x) @ parent rel_path;
          target_file = dst_path @ [name file_path]
      in
      then_do (remove_existing dst_path fs) (\<lambda>fs1.
      then_do (mkdir_parents dst_path fs1) (\<lambda>fs2.
      then_do (remove_existing target_file fs2)
        (shutil_move (rename_refused svc) file_path target_file))))"

fun move_archive_files ::
  "UnzipService \<Rightarrow> path \<Rightarrow> string \<Rightarrow> path list \<Rightarrow> filesystem \<Rightarrow> outcome" where
  "move_archive_files svc temp_path x [] fs = (None, fs)"
| "move_archive_files svc temp_path x (file_path # rest) fs =
     (if detect_archive_type fs file_path \<noteq> UNKNOWN \<or> is_multipart_archive file_path then
        then_do (move_archive_file svc temp_path x file_path fs)
          (move_archive_files svc temp_path x rest)
      else move_archive_files svc temp_path x rest fs)"

definition move_archives_to_zip_temp ::
  "UnzipService \<Rightarrow> path \<Rightarrow> string \<Rightarrow> filesystem \<Rightarrow> outcome" where
  "move_archives_to_zip_temp svc temp_path x fs =
     move_archive_files svc temp_path x (get_file_list fs temp_path) fs"

text \<open>\<^verbatim>\<open>_process_unzip_temp_archives\<close>. The body of the \<^verbatim>\<open>try\<close> statement: extract, remove
  the parts, move the new archives back; its \<^verbatim>\<open>except\<close> clause logs the exception and
  goes on with the next file.\<close>

fun unlink_all :: "path list \<Rightarrow> filesystem \<Rightarrow> outcome" where
  "unlink_all [] fs = (None, fs)"
| "unlink_all (part # rest) fs = then_do (unlink part fs) (unlink_all rest)"

definition extract_and_consume :: "UnzipService \<Rightarrow> string \<Rightarrow> ArchiveInfo \<Rightarrow> path \<Rightarrow> filesystem \<Rightarrow> outcome" where
  "extract_and_consume svc x archive temp_path fs =
     then_do
       (case extract_archive (archive_handler svc) archive temp_path fs of
          (failure, fs', lg) \<Rightarrow> (failure, fs'))
       (\<lambda>fs1. then_do (unlink_all (ai_parts archive) fs1) (move_archives_to_zip_temp svc temp_path x))"

text \<open>One pass of the \<^verbatim>\<open>for\<close> loop over the files of the inbound staging directory.
  The result tells whether an exception left the loop, whether \<^verbatim>\<open>has_archives\<close> is set,
  and the file system. Collecting the parts and creating the outbound directory stand
  outside the \<^verbatim>\<open>try\<close> statement: their exceptions leave the loop.\<close>

fun process_temp_files ::
  "UnzipService \<Rightarrow> string \<Rightarrow> path list \<Rightarrow> bool \<Rightarrow> filesystem \<Rightarrow> exn option \<times> bool \<times> filesystem" where
  "process_temp_files svc x [] has_archives fs = (None, has_archives, fs)"
| "process_temp_files svc x (file_path # rest) has_archives fs =
     (if detect_archive_type fs file_path = UNKNOWN then
        process_temp_files svc x rest has_archives fs
      else
        (case (if is_multipart_archive file_path then collect_multipart_archive fs file_path
               else Inr [file_path]) of
           Inl e \<Rightarrow> (Some e, True, fs)
         | Inr parts \<Rightarrow>
             (case mkdir_parents (path_join (target_temp_dir (path_config svc)) (generate_folder_name svc x)) fs of
                (Some e, fs1) \<Rightarrow> (Some e, True, fs1)
              | (None, fs1) \<Rightarrow>
                  process_temp_files svc x rest True
                    (snd (extract_and_consume svc x
                       \<lparr>ai_path = file_path, ai_type = detect_archive_type fs file_path,
                        ai_parts = parts, ai_password = archive_password svc x\<rparr>
                       (path_join (target_temp_dir (path_config svc)) (generate_folder_name svc x)) fs1)))))"

text \<open>The \<^verbatim>\<open>while True\<close> loop. It may run forever: \<open>None\<close> is the loop that does not
  return.\<close>

partial_function (option) process_unzip_temp_archives ::
  "UnzipService \<Rightarrow> string \<Rightarrow> filesystem \<Rightarrow> outcome option" where
  "process_unzip_temp_archives svc x fs =
     (if \<not> path_exists fs (path_join (unzip_temp_dir (path_config svc)) (generate_folder_name svc x)) \<or>
         \<not> contains_files fs (path_join (unzip_temp_dir (path_config svc)) (generate_folder_name svc x))
      then Some (None, fs)
      else
        (case process_temp_files svc x
                (get_file_list fs (path_join (unzip_temp_dir (path_config svc)) (generate_folder_name svc x)))
                False fs of
           (Some e, has_archives, fs') \<Rightarrow> Some (Some e, fs')
         | (None, has_archives, fs') \<Rightarrow>
             if \<not> has_archives then Some (None, fs')
             else process_unzip_temp_archives svc x fs'))"

declare process_unzip_temp_archives.simps [code]

text \<open>\<^verbatim>\<open>_move_to_target\<close>. The state is the file system and the history.\<close>

definition target_item_of :: "UnzipService \<Rightarrow> path \<Rightarrow> path \<Rightarrow> path \<Rightarrow> path" where
  "target_item_of svc temp3_path dst_path item =
     (let skip_levels = skip_parent_levels (path_config svc) in
      if skip_levels > 0 then
        (let parts = drop (length temp3_path) item in
         if int (length parts) > skip_levels then dst_path @ drop (nat skip_levels) parts
         else dst_path @ [name item])
      else dst_path @ drop (length temp3_path) item)"

definition move_item :: "UnzipService \<Rightarrow> path \<Rightarrow> path \<Rightarrow> path \<Rightarrow> filesystem \<Rightarrow> outcome" where
  "move_item svc temp3_path dst_path item fs =
     (let target_item = target_item_of svc temp3_path dst_path item in
      then_do (if path_exists fs target_item then rmtree target_item fs else (None, fs)) (\<lambda>fs1.
      then_do (mkdir_parents (parent target_item) fs1)
        (shutil_move (rename_refused svc) item target_item)))"

fun move_items :: "UnzipService \<Rightarrow> path \<Rightarrow> path \<Rightarrow> path list \<Rightarrow> filesystem \<Rightarrow> outcome" where
  "move_items svc temp3_path dst_path [] fs = (None, fs)"
| "move_items svc temp3_path dst_path (item # rest) fs =
     then_do (move_item svc temp3_path dst_path item fs) (move_items svc temp3_path dst_path rest)"

definition dst_path_of :: "UnzipService \<Rightarrow> string \<Rightarrow> path" where
  "dst_path_of svc x =
     (if skip_parent_levels (path_config svc) > 0 then target_dir (path_config svc)
      else path_join (target_dir (path_config svc)) (generate_folder_name svc x))"

definition prepare_dst :: "path \<Rightarrow> filesystem \<Rightarrow> outcome" where
  "prepare_dst dst_path fs =
     then_do (if path_exists fs dst_path then rmtree dst_path fs else (None, fs))
       (mkdir_parents dst_path)"

definition move_to_target ::
  "UnzipService \<Rightarrow> path \<Rightarrow> string \<Rightarrow> path \<Rightarrow> filesystem \<times> ledger \<Rightarrow>
   exn option \<times> filesystem \<times> ledger" where
  "move_to_target svc temp3_path x source_path st =
     (case st of
        (fs, history) \<Rightarrow>
          if \<not> contains_files fs temp3_path then (None, fs, history)
          else
            (case prepare_dst (dst_path_of svc x) fs of
               (Some e, fs1) \<Rightarrow> (Some e, fs1, history)
             | (None, fs1) \<Rightarrow>
                 (case iterdir fs1 temp3_path of
                    Inl e \<Rightarrow> (Some e, fs1, history)
                  | Inr items \<Rightarrow>
                      (case move_items svc temp3_path (dst_path_of svc x) items fs1 of
                         (Some e, fs2) \<Rightarrow> (Some e, fs2, history)
                       | (None, fs2) \<Rightarrow>
                           (None, fs2, save_history x source_path (dst_path_of svc x) history)))))"

text \<open>\<^verbatim>\<open>_process_single_id\<close>: stage every archive unit of the item, unpack what surfaced
  until nothing is left, relocate. Any exception ends the item. The result is \<open>None\<close>
  when the recursive extraction does not return.\<close>

definition stage_archive :: "UnzipService \<Rightarrow> string \<Rightarrow> ArchiveInfo \<Rightarrow> filesystem \<Rightarrow> outcome" where
  "stage_archive svc x archive fs =
     (let temp_path = path_join (target_temp_dir (path_config svc)) (generate_folder_name svc x) in
      then_do (make_directory temp_path fs) (\<lambda>fs1.
      then_do (extract_to_target_temp svc archive temp_path fs1) (\<lambda>fs2.
        if contains_files fs2 temp_path then move_archives_to_zip_temp svc temp_path x fs2
        else (None, fs2))))"

fun stage_archives :: "UnzipService \<Rightarrow> string \<Rightarrow> ArchiveInfo list \<Rightarrow> filesystem \<Rightarrow> outcome" where
  "stage_archives svc x [] fs = (None, fs)"
| "stage_archives svc x (archive # rest) fs =
     then_do (stage_archive svc x archive fs) (stage_archives svc x rest)"

definition process_single_id ::
  "UnzipService \<Rightarrow> string \<Rightarrow> path list \<Rightarrow> path \<Rightarrow> filesystem \<times> ledger \<Rightarrow>
   (exn option \<times> filesystem \<times> ledger) option" where
  "process_single_id svc x files source_path st =
     (case st of
        (fs, history) \<Rightarrow>
          (case stage_archives svc x (map snd (prepare_archive_info svc fs x files)) fs of
             (Some e, fs1) \<Rightarrow> Some (Some e, fs1, history)
           | (None, fs1) \<Rightarrow>
               (case process_unzip_temp_archives svc x fs1 of
                  None \<Rightarrow> None
                | Some (Some e, fs2) \<Rightarrow> Some (Some e, fs2, history)
                | Some (None, fs2) \<Rightarrow>
                    Some (move_to_target svc
                            (path_join (target_temp_dir (path_config svc)) (generate_folder_name svc x))
                            x source_path (fs2, history)))))"

text \<open>\<^verbatim>\<open>process_archives\<close>: both staging roots are wiped and created again, the items
  are collected, and each is processed; an item's exception is logged and the next item
  follows.\<close>

definition reset_dir :: "path \<Rightarrow> filesystem \<Rightarrow> outcome" where
  "reset_dir temp_dir fs = mkdir_parents temp_dir (snd (rmtree temp_dir fs))"

fun process_ids ::
  "UnzipService \<Rightarrow> (string \<times> path list) list \<Rightarrow> (string \<times> path) list \<Rightarrow> filesystem \<times> ledger \<Rightarrow>
   (filesystem \<times> ledger) option" where
  "process_ids svc [] id_sources st = Some st"
| "process_ids svc ((x, files) # rest) id_sources st =
     (case map_of id_sources x of
        None \<Rightarrow> process_ids svc rest id_sources st
      | Some source_path \<Rightarrow>
          (case process_single_id svc x files source_path st of
             None \<Rightarrow> None
           | Some (failure, fs', history') \<Rightarrow> process_ids svc rest id_sources (fs', history')))"

definition process_archives ::
  "UnzipService \<Rightarrow> filesystem \<times> ledger \<Rightarrow> (exn option \<times> filesystem \<times> ledger) option" where
  "process_archives svc st =
     (case st of
        (fs, history) \<Rightarrow>
          (case then_do (reset_dir (unzip_temp_dir (path_config svc)) fs)
                  (reset_dir (target_temp_dir (path_config svc))) of
             (Some e, fs1) \<Rightarrow> Some (Some e, fs1, history)
           | (None, fs1) \<Rightarrow>
               (case collect_archive_files svc fs1 history of
                  Inl e \<Rightarrow> Some (Some e, fs1, history)
                | Inr (id_files, id_sources) \<Rightarrow>
                    (case process_ids svc id_files id_sources (fs1, history) of
                       None \<Rightarrow> None
                     | Some (fs2, history2) \<Rightarrow> Some (None, fs2, history2)))))"

section \<open>Predicates on file systems used in the relocation proofs\<close>

text \<open>
  Two paths are apart when neither is an ancestor of the other (nor equal to it). A file
  system is well formed when every entry hangs below a directory. \<open>from_staging\<close> and
  \<open>moved_names\<close> relate the file system during the relocation of the staging directory
  \<open>T\<close> into the destination \<open>D\<close> to the file system \<open>fs0\<close> the relocation started from.
\<close>

definition apart :: "path \<Rightarrow> path \<Rightarrow> bool" where
  "apart p q = (\<not> prefix p q \<and> \<not> prefix q p)"

definition well_formed :: "filesystem \<Rightarrow> bool" where
  "well_formed fs = list_all (\<lambda>(p, n). p \<noteq> [] \<and> is_dir fs (parent p)) fs"

definition from_staging :: "filesystem \<Rightarrow> path \<Rightarrow> path \<Rightarrow> filesystem \<Rightarrow> bool" where
  "from_staging fs0 T D fs =
     ((\<forall>r n. r \<noteq> [] \<longrightarrow> node_at fs (D @ r) = Some n \<longrightarrow> node_at fs0 (T @ r) = Some n) \<and>
      (\<forall>r n. r \<noteq> [] \<longrightarrow> node_at fs (T @ r) = Some n \<longrightarrow> node_at fs0 (T @ r) = Some n))"

definition moved_names :: "filesystem \<Rightarrow> path \<Rightarrow> path \<Rightarrow> string set \<Rightarrow> filesystem \<Rightarrow> bool" where
  "moved_names fs0 T D names fs =
     (\<forall>nm rest.
        (nm \<in> names \<longrightarrow>
           node_at fs (T @ nm # rest) = None \<and>
           node_at fs (D @ nm # rest) = node_at fs0 (T @ nm # rest)) \<and>
        (nm \<notin> names \<longrightarrow> node_at fs (T @ nm # rest) = node_at fs0 (T @ nm # rest)))"


section \<open>Example inputs\<close>

text \<open>A directory with one file for each magic number, an empty file and a file cut
  after two bytes.\<close>

definition fs_headers :: filesystem where
  "fs_headers =
     [([''d''], Dir),
      ([''d'', ''a.7z''], File [0x37, 0x7a, 0xbc, 0xaf, 0x27, 0x1c, 0, 4]),
      ([''d'', ''b.zip''], File [0x50, 0x4b, 3, 4, 20]),
      ([''d'', ''c.rar''], File [0x52, 0x61, 0x72, 0x21]),
      ([''d'', ''empty''], File []),
      ([''d'', ''cut.zip''], File [0x50, 0x4b]),
      ([''d'', ''note.txt''], File [0x68, 0x69])]"

text \<open>A two-part archive whose first part alone cannot be unpacked, and a codec that
  unpacks the merged file only.\<close>

definition fs_two_parts :: filesystem where
  "fs_two_parts =
     [([''in''], Dir), ([''in'', ''a.zip.001''], File [0x50, 0x4b, 3]),
      ([''in'', ''a.zip.002''], File [4, 5]), ([''out''], Dir)]"

definition codec_merged_only :: codec where
  "codec_merged_only t fs p pw =
     (if p = [''out'', ''merged.001''] then ([([''d'', ''f.txt''], [1, 2])], None)
      else ([], Some (ExtractError 1)))"

definition unit_two_parts :: ArchiveInfo where
  "unit_two_parts =
     \<lparr>ai_path = [''in'', ''a.zip.001''], ai_type = ZIP,
      ai_parts = [[''in'', ''a.zip.001''], [''in'', ''a.zip.002'']], ai_password = ''x''\<rparr>"

text \<open>A single archive that no codec can unpack.\<close>

definition codec_failing :: codec where
  "codec_failing t fs p pw = ([], Some (ExtractError 1))"

definition unit_single :: ArchiveInfo where
  "unit_single =
     \<lparr>ai_path = [''in'', ''a.zip.001''], ai_type = ZIP,
      ai_parts = [[''in'', ''a.zip.001'']], ai_password = ''x''\<rparr>"

text \<open>A service over the directories \<^verbatim>\<open>src\<close>, \<^verbatim>\<open>t1\<close> (inbound staging), \<^verbatim>\<open>t3\<close> (outbound
  staging) and \<^verbatim>\<open>target\<close>, with no \<^verbatim>\<open>Pieces\<close> documents, and a codec that unpacks
  \<^verbatim>\<open>outer.zip\<close> into one nested archive \<^verbatim>\<open>bad.zip\<close> and fails on everything else.
  \<open>fs_stuck\<close> is the file system after the item \<^verbatim>\<open>X\<close> has been staged; \<open>fs_particles\<close>
  has a Rar archive named \<^verbatim>\<open>particles.rar\<close> in the item's inbound staging directory.\<close>

definition config_demo :: PathConfig where
  "config_demo =
     \<lparr>source_dir = [''src''], unzip_temp_dir = [''t1''], target_temp_dir = [''t3''],
      target_dir = [''target''], skip_parent_levels = 0\<rparr>"

definition codec_outer_only :: codec where
  "codec_outer_only t fs p pw =
     (if p = [''src'', ''X'', ''outer.zip''] then ([([''bad.zip''], [0x50, 0x4b, 3, 4, 0xff])], None)
      else ([], Some (ExtractError 1)))"

definition svc_nested :: UnzipService where
  "svc_nested =
     \<lparr>db_type = LOIBUS, default_password = ''pw'', path_config = config_demo,
      pieces_dao = (\<lambda>x. None), archive_handler = codec_outer_only,
      rename_refused = (\<lambda>src dst. False)\<rparr>"

definition fs_nested :: filesystem where
  "fs_nested =
     [([''src''], Dir), ([''src'', ''X''], Dir),
      ([''src'', ''X'', ''outer.zip''], File [0x50, 0x4b, 3, 4, 1]),
      ([''target''], Dir), ([''t1''], Dir), ([''t3''], Dir)]"

definition fs_stuck :: filesystem where
  "fs_stuck =
     fs_nested @
     [([''t3'', ''X''], Dir), ([''t1'', ''X'', ''bad.zip''], File [0x50, 0x4b, 3, 4, 0xff]),
      ([''t1'', ''X''], Dir)]"

definition fs_particles :: filesystem where
  "fs_particles =
     [([''t1''], Dir), ([''t1'', ''X''], Dir),
      ([''t1'', ''X'', ''particles.rar''], File [0x52, 0x61, 0x72, 0x21, 0x1a, 7, 0]),
      ([''t3''], Dir), ([''t3'', ''X''], Dir)]"


text \<open>The same service with \<open>skip_parent_levels = n\<close>, a staged item \<^verbatim>\<open>X\<close> with the file
  \<^verbatim>\<open>outer/inner/file.txt\<close> beside a target root that holds an earlier item, and the file
  system after its relocation with \<open>n = 1\<close>.\<close>

definition svc_skip :: "int \<Rightarrow> UnzipService" where
  "svc_skip n =
     \<lparr>db_type = LOIBUS, default_password = ''pw'',
      path_config = config_demo\<lparr>skip_parent_levels := n\<rparr>,
      pieces_dao = (\<lambda>x. None), archive_handler = codec_outer_only,
      rename_refused = (\<lambda>src dst. False)\<rparr>"

definition fs_staged :: filesystem where
  "fs_staged =
     [([''target''], Dir), ([''target'', ''old''], Dir),
      ([''target'', ''old'', ''keep.txt''], File [7]),
      ([''t3''], Dir), ([''t3'', ''X''], Dir), ([''t3'', ''X'', ''outer''], Dir),
      ([''t3'', ''X'', ''outer'', ''inner''], Dir),
      ([''t3'', ''X'', ''outer'', ''inner'', ''file.txt''], File [1, 2, 3])]"

definition fs_relocated :: filesystem where
  "fs_relocated =
     [([''t3''], Dir), ([''t3'', ''X''], Dir), ([''target'', ''outer''], Dir),
      ([''target'', ''outer'', ''inner''], Dir),
      ([''target'', ''outer'', ''inner'', ''file.txt''], File [1, 2, 3]),
      ([''target''], Dir)]"

text \<open>A video service whose item \<^verbatim>\<open>X\<close> is named for two resolutions while its archive
  holds one; the file system after the first run (\<open>fs_video_done\<close>), the record that
  run saves, and the file system after a second run of the same service over another
  database (\<open>fs_plain_done\<close>).\<close>

definition codec_clip :: codec where
  "codec_clip t fs p pw = ([([''clip_2k.mp4''], [9, 9])], None)"

definition svc_video :: UnzipService where
  "svc_video =
     \<lparr>db_type = VAMVIDEO, default_password = ''pw'', path_config = config_demo,
      pieces_dao = (\<lambda>x. if x = ''X'' then Some [(''id'', ''X''), (''title'', ''clip 2k 4k'')] else None),
      archive_handler = codec_clip, rename_refused = (\<lambda>src dst. False)\<rparr>"

definition fs_video :: filesystem where
  "fs_video =
     [([''src''], Dir), ([''src'', ''X.zip''], File [0x50, 0x4b, 3, 4, 1]),
      ([''target''], Dir), ([''t1''], Dir), ([''t3''], Dir)]"

definition fs_video_done :: filesystem where
  "fs_video_done =
     fs_video @
     [([''t3'', ''[X] clip 2k 4k''], Dir),
      ([''target'', ''[X] clip 2k 4k'', ''clip_2k.mp4''], File [9, 9]),
      ([''target'', ''[X] clip 2k 4k''], Dir)]"

definition record_x :: HistoryRecord where
  "record_x =
     \<lparr>h_id = ''X'', h_src_path = [''src'', ''X.zip''],
      h_dst_path = [''target'', ''[X] clip 2k 4k'']\<rparr>"

definition fs_plain_done :: filesystem where
  "fs_plain_done =
     [([''src''], Dir), ([''src'', ''X.zip''], File [0x50, 0x4b, 3, 4, 1]), ([''target''], Dir),
      ([''target'', ''[X] clip 2k 4k'', ''clip_2k.mp4''], File [9, 9]),
      ([''target'', ''[X] clip 2k 4k''], Dir), ([''t1''], Dir), ([''t3''], Dir)]"

text \<open>The first run's file system with both resolutions in the target folder of the item
  \<^verbatim>\<open>X\<close>, and the file system a second run of the video service leaves.\<close>

definition fs_video_full :: filesystem where
  "fs_video_full =
     fs_video @
     [([''target'', ''[X] clip 2k 4k''], Dir),
      ([''target'', ''[X] clip 2k 4k'', ''clip_2k.mp4''], File [9, 9]),
      ([''target'', ''[X] clip 2k 4k'', ''clip_4k.mp4''], File [8])]"

definition fs_video_kept :: filesystem where
  "fs_video_kept =
     [([''src''], Dir), ([''src'', ''X.zip''], File [0x50, 0x4b, 3, 4, 1]), ([''target''], Dir),
      ([''target'', ''[X] clip 2k 4k''], Dir),
      ([''target'', ''[X] clip 2k 4k'', ''clip_2k.mp4''], File [9, 9]),
      ([''target'', ''[X] clip 2k 4k'', ''clip_4k.mp4''], File [8]),
      ([''t1''], Dir), ([''t3''], Dir)]"


text \<open>An item with a text file, a Zip archive of the same base name and a stray part of a
  Rar archive without a recognisable header; a unit of type \<open>UNKNOWN\<close> made of the text
  file and the stray part, and the file system after that unit has been staged.\<close>

definition fs_mixed :: filesystem where
  "fs_mixed =
     [([''src''], Dir), ([''src'', ''X''], Dir),
      ([''src'', ''X'', ''notes.txt''], File [0x68, 0x69]),
      ([''src'', ''X'', ''notes.zip''], File [0x50, 0x4b, 3, 4, 1]),
      ([''src'', ''X'', ''a.part001.rar''], File [0, 1]),
      ([''t3''], Dir), ([''t3'', ''X''], Dir)]"

definition unit_unknown :: ArchiveInfo where
  "unit_unknown =
     \<lparr>ai_path = [''src'', ''X'', ''notes.txt''], ai_type = UNKNOWN,
      ai_parts = [[''src'', ''X'', ''notes.txt''], [''src'', ''X'', ''a.part001.rar'']],
      ai_password = ''pw''\<rparr>"

definition files_mixed :: "path list" where
  "files_mixed =
     [[''src'', ''X'', ''notes.txt''], [''src'', ''X'', ''notes.zip''],
      [''src'', ''X'', ''a.part001.rar'']]"

definition fs_mixed_copied :: filesystem where
  "fs_mixed_copied = fs_mixed @ [([''t3'', ''X'', ''notes.txt''], File [0x68, 0x69])]"

text \<open>The same item with one more text file, whose name sorts after the Zip archive's and
  has its base name; the item's files in an order that is not the sorted one.\<close>

definition fs_trailing :: filesystem where
  "fs_trailing = fs_mixed @ [([''src'', ''X'', ''notes.zip.txt''], File [0x68])]"

definition files_trailing :: "path list" where
  "files_trailing =
     [[''src'', ''X'', ''notes.zip.txt''], [''src'', ''X'', ''notes.zip''],
      [''src'', ''X'', ''a.part001.rar''], [''src'', ''X'', ''notes.txt'']]"

definition fs_two_items :: filesystem where
  "fs_two_items =
     [([''target''], Dir), ([''t3''], Dir), ([''t3'', ''X''], Dir),
      ([''t3'', ''X'', ''a.txt''], File [1]), ([''t3'', ''X'', ''b.txt''], File [2])]"

definition svc_refusing :: UnzipService where
  "svc_refusing = (svc_skip 0)\<lparr>rename_refused := (\<lambda>src dst. name src = ''b.txt'')\<rparr>"

definition fs_two_moved :: filesystem where
  "fs_two_moved =
     [([''target''], Dir), ([''t3''], Dir), ([''t3'', ''X''], Dir),
      ([''target'', ''X'', ''a.txt''], File [1]), ([''target'', ''X'', ''b.txt''], File [2]),
      ([''target'', ''X''], Dir)]"

definition fs_two_partial :: filesystem where
  "fs_two_partial =
     [([''target''], Dir), ([''t3''], Dir), ([''t3'', ''X''], Dir),
      ([''target'', ''X'', ''a.txt''], File [1]), ([''t3'', ''X'', ''b.txt''], File [2]),
      ([''target'', ''X''], Dir)]"

section \<open>Facts about the file system\<close>

lemma node_at_root [simp]: "node_at fs [] = Some Dir"
  by (simp add: node_at_def)

lemma is_dir_root [simp]: "is_dir fs []"
  by (simp add: is_dir_def)

lemma is_file_not_root [simp]: "\<not> is_file fs []"
  by (simp add: is_file_def)

lemma is_file_iff: "is_file fs p \<longleftrightarrow> (\<exists>c. node_at fs p = Some (File c))"
  by (auto simp: is_file_def split: option.splits node.splits)

lemma file_not_dir: "is_file fs q \<Longrightarrow> \<not> is_dir fs q"
  by (auto simp: is_file_iff is_dir_def)

lemma node_at_update:
  "node_at (AList.update p n fs) q =
     (if q = [] then Some Dir else if q = p then Some n else node_at fs q)"
  by (simp add: node_at_def update_conv')

lemma node_at_delete:
  "node_at (AList.delete p fs) q =
     (if q = [] then Some Dir else if q = p then None else node_at fs q)"
  by (simp add: node_at_def delete_conv')

lemma map_of_remove_tree:
  "map_of (remove_tree p fs) q = (if prefix p q then None else map_of fs q)"
  by (induction fs) (auto simp: remove_tree_def)

lemma node_at_remove_tree:
  "node_at (remove_tree p fs) q =
     (if q = [] then Some Dir else if prefix p q then None else node_at fs q)"
  by (simp add: node_at_def map_of_remove_tree)

lemma node_at_make_dirs:
  "node_at (make_dirs qs fs) q =
     (if q \<in> set qs \<and> node_at fs q = None then Some Dir else node_at fs q)"
proof (induction qs arbitrary: fs)
  case Nil
  then show ?case by (simp add: make_dirs_def)
next
  case (Cons a qs)
  have step: "make_dirs (a # qs) fs =
      make_dirs qs (if path_exists fs a then fs else AList.update a Dir fs)"
    by (simp add: make_dirs_def)
  show ?case
    unfolding step Cons.IH
    by (auto simp: path_exists_def node_at_update)
qed

lemma then_do_None:
  "then_do r f = (None, fs') \<longleftrightarrow> (\<exists>fs1. r = (None, fs1) \<and> f fs1 = (None, fs'))"
  by (cases r) (auto simp: then_do_def split: option.splits)

lemma then_do_cases:
  assumes "then_do r f = (x, fs')"
  obtains (first) e where "r = (Some e, fs')" "x = Some e"
  | (second) fs1 where "r = (None, fs1)" "f fs1 = (x, fs')"
  using assms by (cases r) (auto simp: then_do_def split: option.splits)

subsection \<open>Files stay files\<close>

lemma mkdir_parents_keeps_file:
  "mkdir_parents p fs = (r, fs') \<Longrightarrow> is_file fs q \<Longrightarrow> is_file fs' q"
  by (auto simp: mkdir_parents_def is_file_iff node_at_make_dirs split: if_splits)

lemma open_wb_keeps_file:
  "open_wb p b fs = (r, fs') \<Longrightarrow> is_file fs q \<Longrightarrow> is_file fs' q"
  by (auto simp: open_wb_def is_file_iff node_at_update split: if_splits)

lemma write_entries_keeps_file:
  "write_entries out es fs = (r, fs') \<Longrightarrow> is_file fs q \<Longrightarrow> is_file fs' q"
proof (induction es arbitrary: fs r fs')
  case Nil
  then show ?case by simp
next
  case (Cons a es)
  obtain rel content where a: "a = (rel, content)" by (cases a)
  obtain r1 fs1 where m: "mkdir_parents (parent (out @ rel)) fs = (r1, fs1)"
    by (cases "mkdir_parents (parent (out @ rel)) fs")
  then have f1: "is_file fs1 q" using Cons.prems(2) by (rule mkdir_parents_keeps_file)
  show ?case
  proof (cases r1)
    case (Some e)
    with Cons.prems(1) a m f1 show ?thesis by (simp add: then_do_def)
  next
    case None
    obtain r2 fs2 where w: "open_wb (out @ rel) content fs1 = (r2, fs2)"
      by (cases "open_wb (out @ rel) content fs1")
    then have f2: "is_file fs2 q" using f1 by (rule open_wb_keeps_file)
    show ?thesis
    proof (cases r2)
      case (Some e)
      with Cons.prems(1) a m None w f2 show ?thesis by (simp add: then_do_def)
    next
      case None2: None
      from Cons.prems(1) a m None w None2 have "write_entries out es fs2 = (r, fs')"
        by (simp add: then_do_def)
      then show ?thesis using f2 by (rule Cons.IH)
    qed
  qed
qed

lemma extractall_keeps_file:
  "extractall codec t p out pw fs = (r, fs') \<Longrightarrow> is_file fs q \<Longrightarrow> is_file fs' q"
  by (auto simp: extractall_def split: sum.splits prod.splits option.splits
      dest: write_entries_keeps_file)

lemma append_bytes_file:
  "is_file (append_bytes p b fs) q \<longleftrightarrow> (q \<noteq> [] \<and> q = p) \<or> is_file fs q"
  by (auto simp: append_bytes_def is_file_iff node_at_update split: option.splits node.splits)

lemma append_bytes_not_dir: "\<not> is_dir fs q \<Longrightarrow> \<not> is_dir (append_bytes p b fs) q"
  by (auto simp: append_bytes_def is_dir_def node_at_update
      split: option.splits node.splits if_splits)

lemma merge_loop_not_dir:
  "merge_loop ps out fs = (r, fs') \<Longrightarrow> \<not> is_dir fs q \<Longrightarrow> \<not> is_dir fs' q"
  by (induction ps arbitrary: fs) (auto split: sum.splits dest: append_bytes_not_dir)

lemma merge_loop_keeps_file:
  "merge_loop ps out fs = (r, fs') \<Longrightarrow> is_file fs q \<Longrightarrow> is_file fs' q"
  by (induction ps arbitrary: fs) (auto split: sum.splits simp: append_bytes_file)

lemma merge_files_not_dir:
  "merge_files ps out fs = (r, fs') \<Longrightarrow> \<not> is_dir fs out \<Longrightarrow> \<not> is_dir fs' out"
  by (auto simp: merge_files_def open_wb_def then_do_def is_dir_def node_at_update
      split: if_splits dest!: merge_loop_not_dir [where q = out])

lemma merge_files_ok_file:
  "merge_files ps out fs = (None, fs') \<Longrightarrow> is_file fs' out"
  by (auto simp: merge_files_def open_wb_def then_do_def is_file_iff is_dir_def node_at_update
      split: if_splits dest!: merge_loop_keeps_file [where q = out])

lemma merge_and_extract_not_dir:
  assumes "merge_and_extract codec a out fs = (r, fs', lg)"
    and "\<not> is_dir fs (merged_path_of a out)"
  shows "\<not> is_dir fs' (merged_path_of a out)"
proof (cases "merge_files (ai_parts a) (merged_path_of a out) fs")
  case (Pair r1 fs1)
  show ?thesis
  proof (cases r1)
    case (Some e)
    with Pair assms show ?thesis
      by (auto simp: merge_and_extract_def Let_def dest: merge_files_not_dir)
  next
    case None
    with Pair have f: "is_file fs1 (merged_path_of a out)" by (auto dest: merge_files_ok_file)
    obtain r2 fs2 where
      x: "extractall codec (ai_type a) (merged_path_of a out) out (ai_password a) fs1 = (r2, fs2)"
      by (cases "extractall codec (ai_type a) (merged_path_of a out) out (ai_password a) fs1")
    from x f have "is_file fs2 (merged_path_of a out)" by (rule extractall_keeps_file)
    moreover have "fs' = fs2"
      using assms(1) Pair None x by (auto simp: merge_and_extract_def Let_def split: option.splits)
    ultimately show ?thesis by (simp add: file_not_dir)
  qed
qed

lemma remove_merged_no_file:
  "remove_merged mp x = (r, fs', lg) \<Longrightarrow> \<not> is_file fs' mp"
  by (cases x) (auto simp: remove_merged_def unlink_def path_exists_def is_file_iff node_at_delete
      split: if_splits option.splits node.splits)

lemma remove_merged_gone:
  "remove_merged mp (r0, fs, lg0) = (r, fs', lg) \<Longrightarrow> \<not> is_dir fs mp \<Longrightarrow> \<not> path_exists fs' mp"
  by (auto simp: remove_merged_def unlink_def path_exists_def is_dir_def node_at_delete
      split: if_splits option.splits node.splits)

subsection \<open>The byte prefix the Header Sniffer reads\<close>

lemma hex_digit_inj: "i < 16 \<Longrightarrow> j < 16 \<Longrightarrow> hex_digit i = hex_digit j \<Longrightarrow> i = j"
  unfolding hex_digit_def
  by (subst (asm) nth_eq_iff_index_eq) simp_all

lemma hex_byte_inj: "hex_byte a = hex_byte b \<Longrightarrow> a = b"
proof -
  assume h: "hex_byte a = hex_byte b"
  have la: "unat a < 256" and lb: "unat b < 256"
    using unsigned_less [of a, where ?'a = nat] unsigned_less [of b, where ?'a = nat] by simp_all
  from h have d: "unat a div 16 = unat b div 16"
    using la lb by (auto simp: hex_byte_def intro!: hex_digit_inj)
  from h have m: "unat a mod 16 = unat b mod 16"
    by (auto simp: hex_byte_def intro!: hex_digit_inj)
  from d m have "unat a = unat b"
    by (metis div_mult_mod_eq)
  then show "a = b" by (simp add: word_unat_eq_iff)
qed

lemma prefix_b2a_hex: "prefix (b2a_hex xs) (b2a_hex ys) \<longleftrightarrow> prefix xs ys"
proof (induction xs arbitrary: ys)
  case Nil
  then show ?case by (simp add: b2a_hex_def)
next
  case (Cons x xs)
  show ?case
  proof (cases ys)
    case Nil
    then show ?thesis by (simp add: b2a_hex_def hex_byte_def)
  next
    case (Cons y ys')
    have "prefix (b2a_hex (x # xs)) (b2a_hex (y # ys')) \<longleftrightarrow>
          hex_byte x = hex_byte y \<and> prefix (b2a_hex xs) (b2a_hex ys')"
      by (auto simp: b2a_hex_def hex_byte_def)
    then show ?thesis using Cons Cons.IH [of ys'] by (auto dest: hex_byte_inj)
  qed
qed

lemma headers_hex:
  "SEVEN_ZIP_HEADER = b2a_hex magic_7z" "ZIP_HEADER = b2a_hex magic_zip"
  "RAR_HEADER = b2a_hex magic_rar"
  by (simp_all add: SEVEN_ZIP_HEADER_def ZIP_HEADER_def RAR_HEADER_def b2a_hex_def hex_byte_def
      hex_digit_def magic_7z_def magic_zip_def magic_rar_def)

lemma prefix_take_short: "length m \<le> n \<Longrightarrow> prefix m (take n c) \<longleftrightarrow> prefix m c"
proof
  assume "prefix m (take n c)"
  then show "prefix m c" using take_is_prefix [of n c] by (rule prefix_order.trans)
next
  assume a: "length m \<le> n" and "prefix m c"
  then obtain zs where "c = m @ zs" by (auto simp: prefix_def)
  with a show "prefix m (take n c)" by simp
qed

lemma b2a_hex_Nil_iff: "b2a_hex bs = [] \<longleftrightarrow> bs = []"
  by (cases bs) (simp_all add: b2a_hex_def hex_byte_def)

lemma detect_archive_type_bytes:
  "detect_archive_type fs p =
     (case open_rb fs p of
        Inl e \<Rightarrow> UNKNOWN
      | Inr c \<Rightarrow>
          if prefix magic_7z c then SEVEN_ZIP
          else if prefix magic_zip c then ZIP
          else if prefix magic_rar c then RAR
          else UNKNOWN)"
proof (cases "open_rb fs p")
  case (Inl e)
  then show ?thesis by (simp add: detect_archive_type_def get_file_header_def)
next
  case (Inr c)
  have a: "prefix SEVEN_ZIP_HEADER (b2a_hex (take HEADER_BYTES c)) \<longleftrightarrow> prefix magic_7z c"
    by (simp add: headers_hex prefix_b2a_hex prefix_take_short HEADER_BYTES_def magic_7z_def)
  have b: "prefix ZIP_HEADER (b2a_hex (take HEADER_BYTES c)) \<longleftrightarrow> prefix magic_zip c"
    by (simp add: headers_hex prefix_b2a_hex prefix_take_short HEADER_BYTES_def magic_zip_def)
  have d: "prefix RAR_HEADER (b2a_hex (take HEADER_BYTES c)) \<longleftrightarrow> prefix magic_rar c"
    by (simp add: headers_hex prefix_b2a_hex prefix_take_short HEADER_BYTES_def magic_rar_def)
  have e: "b2a_hex (take HEADER_BYTES c) = [] \<longleftrightarrow> c = []"
    by (simp add: b2a_hex_Nil_iff HEADER_BYTES_def)
  show ?thesis
    using Inr
    by (auto simp: detect_archive_type_def get_file_header_def a b d e
        magic_7z_def magic_zip_def magic_rar_def)
qed

section \<open>Header Sniffer: claim C8\<close>

text \<open>
  Claim C8. The classification of a file depends on its first \<open>HEADER_BYTES\<close> bytes only.
  A file that cannot be read is \<open>UNKNOWN\<close> (no exception leaves the function). A file
  that can be read is \<open>SEVEN_ZIP\<close>, \<open>ZIP\<close> or \<open>RAR\<close> when its bytes start with the
  7-zip, the Zip or the Rar magic number, tried in this order, and \<open>UNKNOWN\<close> when they
  start with none of them; in particular an empty file and a file of fewer than three
  bytes are \<open>UNKNOWN\<close>.
\<close>

theorem detect_archive_type_classifies:
  "(\<forall>e. open_rb fs p = Inl e \<longrightarrow> detect_archive_type fs p = UNKNOWN) \<and>
   (\<forall>c. open_rb fs p = Inr c \<longrightarrow>
      detect_archive_type fs p =
        (if prefix magic_7z c then SEVEN_ZIP
         else if prefix magic_zip c then ZIP
         else if prefix magic_rar c then RAR
         else UNKNOWN)) \<and>
   (\<forall>c. open_rb fs p = Inr c \<longrightarrow> length c < 3 \<longrightarrow> detect_archive_type fs p = UNKNOWN) \<and>
   (\<forall>c c'. open_rb fs p = Inr c \<longrightarrow> open_rb fs' p' = Inr c' \<longrightarrow>
      take HEADER_BYTES c = take HEADER_BYTES c' \<longrightarrow>
      detect_archive_type fs p = detect_archive_type fs' p')"
proof (intro conjI allI impI)
  fix e assume "open_rb fs p = Inl e"
  then show "detect_archive_type fs p = UNKNOWN" by (simp add: detect_archive_type_bytes)
next
  fix c assume "open_rb fs p = Inr c"
  then show "detect_archive_type fs p =
      (if prefix magic_7z c then SEVEN_ZIP else if prefix magic_zip c then ZIP
       else if prefix magic_rar c then RAR else UNKNOWN)"
    by (simp add: detect_archive_type_bytes)
next
  fix c assume "open_rb fs p = Inr c" and "length c < 3"
  then show "detect_archive_type fs p = UNKNOWN"
    by (auto simp: detect_archive_type_bytes magic_7z_def magic_zip_def magic_rar_def
        dest: prefix_length_le)
next
  fix c c'
  assume "open_rb fs p = Inr c" and "open_rb fs' p' = Inr c'"
    and "take HEADER_BYTES c = take HEADER_BYTES c'"
  then show "detect_archive_type fs p = detect_archive_type fs' p'"
    by (simp add: detect_archive_type_def get_file_header_def)
qed

theorem detect_archive_type_classifies_witness:
  "detect_archive_type fs_headers [''d'', ''a.7z''] = SEVEN_ZIP \<and>
   detect_archive_type fs_headers [''d'', ''b.zip''] = ZIP \<and>
   detect_archive_type fs_headers [''d'', ''c.rar''] = RAR \<and>
   detect_archive_type fs_headers [''d'', ''note.txt''] = UNKNOWN \<and>
   detect_archive_type fs_headers [''d'', ''empty''] = UNKNOWN \<and>
   detect_archive_type fs_headers [''d'', ''cut.zip''] = UNKNOWN \<and>
   detect_archive_type fs_headers [''d'', ''missing''] = UNKNOWN \<and>
   detect_archive_type fs_headers [''d''] = UNKNOWN"
  using detect_archive_type_classifies [of fs_headers "[''d'', ''a.7z'']"]
    detect_archive_type_classifies [of fs_headers "[''d'', ''b.zip'']"]
    detect_archive_type_classifies [of fs_headers "[''d'', ''c.rar'']"]
    detect_archive_type_classifies [of fs_headers "[''d'', ''note.txt'']"]
    detect_archive_type_classifies [of fs_headers "[''d'', ''empty'']"]
    detect_archive_type_classifies [of fs_headers "[''d'', ''cut.zip'']"]
    detect_archive_type_classifies [of fs_headers "[''d'', ''missing'']"]
    detect_archive_type_classifies [of fs_headers "[''d'']"]
  by (simp add: open_rb_def node_at_def fs_headers_def magic_7z_def magic_zip_def magic_rar_def)

section \<open>Archive Extractor: claims C7 and C4\<close>

text \<open>
  Claim C7. Let the output directory be there (or be created), the unit's type be
  supported and the direct attempt on the unit's file fail with an exception. If the unit
  has exactly one fragment, \<open>extract_archive\<close> raises that very exception right after the
  direct attempt: the file system is the one the direct attempt left and the log holds
  the direct attempt and the failure only, no merge. And whatever the unit, a log that
  holds the line announcing the merge belongs to a unit of more than one fragment.
\<close>

theorem single_fragment_failure_propagates:
  assumes "ensure_output_dir out fs0 = (None, fs)"
    and "ai_type a \<noteq> UNKNOWN"
    and "extractall codec (ai_type a) (ai_path a) out (ai_password a) fs = (Some e, fs1)"
  shows "(length (ai_parts a) = 1 \<longrightarrow>
           extract_archive codec a out fs0 =
             (Some e, fs1,
              [UsingArchiveFile (ai_path a), ExtractingType (ai_type a),
               ExtractingArchive (ai_type a) (ai_path a) out,
               FailedToExtractArchive (ai_path a) e])) \<and>
         (MergingArchiveParts \<in> set (snd (snd (extract_archive codec a out fs0))) \<longrightarrow>
           1 < length (ai_parts a))"
  using assms
  by (auto simp: extract_archive_def Let_def log_failure_def split: prod.splits option.splits)

theorem single_fragment_failure_propagates_witness:
  "ensure_output_dir [''out''] fs_two_parts = (None, fs_two_parts) \<and>
   ai_type unit_single \<noteq> UNKNOWN \<and>
   extractall codec_failing (ai_type unit_single) (ai_path unit_single) [''out'']
     (ai_password unit_single) fs_two_parts = (Some (ExtractError 1), fs_two_parts) \<and>
   length (ai_parts unit_single) = 1 \<and>
   extract_archive codec_failing unit_single [''out''] fs_two_parts =
     (Some (ExtractError 1), fs_two_parts,
      [UsingArchiveFile [''in'', ''a.zip.001''], ExtractingType ZIP,
       ExtractingArchive ZIP [''in'', ''a.zip.001''] [''out''],
       FailedToExtractArchive [''in'', ''a.zip.001''] (ExtractError 1)])"
proof -
  have h1: "ensure_output_dir [''out''] fs_two_parts = (None, fs_two_parts)"
    by (simp add: ensure_output_dir_def path_exists_def node_at_def fs_two_parts_def)
  have h2: "ai_type unit_single \<noteq> UNKNOWN"
    by (simp add: unit_single_def)
  have h3: "extractall codec_failing (ai_type unit_single) (ai_path unit_single) [''out'']
     (ai_password unit_single) fs_two_parts = (Some (ExtractError 1), fs_two_parts)"
    by (simp add: extractall_def open_rb_def node_at_def fs_two_parts_def unit_single_def
        codec_failing_def)
  have h4: "length (ai_parts unit_single) = 1"
    by (simp add: unit_single_def)
  from single_fragment_failure_propagates [OF h1 h2 h3] h4
  have "extract_archive codec_failing unit_single [''out''] fs_two_parts =
     (Some (ExtractError 1), fs_two_parts,
      [UsingArchiveFile (ai_path unit_single), ExtractingType (ai_type unit_single),
       ExtractingArchive (ai_type unit_single) (ai_path unit_single) [''out''],
       FailedToExtractArchive (ai_path unit_single) (ExtractError 1)])"
    by simp
  then show ?thesis using h1 h2 h3 h4 by (simp add: unit_single_def)
qed

text \<open>
  Claim C4. Let the output directory be there (or be created), the unit's type be
  supported, the unit have more than one fragment and the direct attempt on its first
  fragment fail: the extraction enters the merge fallback. Then, whether \<open>extract_archive\<close>
  returns or raises, no file is at the merged file's path afterwards; and unless a
  directory stood at that path when the fallback began, nothing at all is at that path.
\<close>

theorem merged_file_removed:
  assumes "ensure_output_dir out fs0 = (None, fs)"
    and "ai_type a \<noteq> UNKNOWN"
    and "1 < length (ai_parts a)"
    and "extractall codec (ai_type a) (ai_parts a ! 0) out (ai_password a) fs = (Some e, fs1)"
    and "extract_archive codec a out fs0 = (r, fs', lg)"
  shows "MergingArchiveParts \<in> set lg \<and>
         \<not> is_file fs' (merged_path_of a out) \<and>
         (\<not> is_dir fs1 (merged_path_of a out) \<longrightarrow> \<not> path_exists fs' (merged_path_of a out))"
proof -
  obtain r1 fs2 lg1 where m: "merge_and_extract codec a out fs1 = (r1, fs2, lg1)"
    by (cases "merge_and_extract codec a out fs1")
  obtain r2 fs3 lg2 where
    rm: "remove_merged (merged_path_of a out) (r1, fs2, lg1) = (r2, fs3, lg2)"
    by (cases "remove_merged (merged_path_of a out) (r1, fs2, lg1)")
  have ea: "extract_archive codec a out fs0 =
      log_failure (ai_path a) (r2, fs3,
        ([AttemptingMultiPartDirectly (length (ai_parts a)), UsingArchiveFile (ai_parts a ! 0),
          ExtractingType (ai_type a), ExtractingArchive (ai_type a) (ai_parts a ! 0) out] @
         [DirectExtractionFailedTryingMerged e, MergingArchiveParts] @ lg2))"
    using assms(1-4) m rm by (simp add: extract_archive_def Let_def)
  have fs': "fs' = fs3" and lg: "MergingArchiveParts \<in> set lg"
    using assms(5) ea by (auto simp: log_failure_def split: option.splits)
  have "\<not> is_file fs3 (merged_path_of a out)"
    using rm by (rule remove_merged_no_file)
  moreover have "\<not> path_exists fs3 (merged_path_of a out)"
    if "\<not> is_dir fs1 (merged_path_of a out)"
  proof -
    from m that have "\<not> is_dir fs2 (merged_path_of a out)" by (rule merge_and_extract_not_dir)
    with rm show ?thesis by (rule remove_merged_gone)
  qed
  ultimately show ?thesis using fs' lg by simp
qed

theorem merged_file_removed_witness:
  "ensure_output_dir [''out''] fs_two_parts = (None, fs_two_parts) \<and>
   ai_type unit_two_parts \<noteq> UNKNOWN \<and>
   1 < length (ai_parts unit_two_parts) \<and>
   extractall codec_merged_only (ai_type unit_two_parts) (ai_parts unit_two_parts ! 0) [''out'']
     (ai_password unit_two_parts) fs_two_parts = (Some (ExtractError 1), fs_two_parts) \<and>
   extract_archive codec_merged_only unit_two_parts [''out''] fs_two_parts =
     (None,
      fs_two_parts @ [([''out'', ''d''], Dir), ([''out'', ''d'', ''f.txt''], File [1, 2])],
      [AttemptingMultiPartDirectly 2, UsingArchiveFile [''in'', ''a.zip.001''],
       ExtractingType ZIP, ExtractingArchive ZIP [''in'', ''a.zip.001''] [''out''],
       DirectExtractionFailedTryingMerged (ExtractError 1), MergingArchiveParts,
       MergedFileCreated [''out'', ''merged.001''], ExtractingFromMergedFile,
       ExtractingArchive ZIP [''out'', ''merged.001''] [''out''],
       ExtractionFromMergedSuccessful, RemovingMergedFile [''out'', ''merged.001'']]) \<and>
   merged_path_of unit_two_parts [''out''] = [''out'', ''merged.001''] \<and>
   \<not> is_dir fs_two_parts [''out'', ''merged.001''] \<and>
   \<not> path_exists
       (fs_two_parts @ [([''out'', ''d''], Dir), ([''out'', ''d'', ''f.txt''], File [1, 2])])
       [''out'', ''merged.001'']"
proof -
  have h1: "ensure_output_dir [''out''] fs_two_parts = (None, fs_two_parts)"
    by (simp add: ensure_output_dir_def path_exists_def node_at_def fs_two_parts_def)
  have h2: "ai_type unit_two_parts \<noteq> UNKNOWN"
    by (simp add: unit_two_parts_def)
  have h3: "1 < length (ai_parts unit_two_parts)"
    by (simp add: unit_two_parts_def)
  have h4: "extractall codec_merged_only (ai_type unit_two_parts) (ai_parts unit_two_parts ! 0)
     [''out''] (ai_password unit_two_parts) fs_two_parts = (Some (ExtractError 1), fs_two_parts)"
    by (simp add: extractall_def open_rb_def node_at_def fs_two_parts_def unit_two_parts_def
        codec_merged_only_def)
  have h5: "extract_archive codec_merged_only unit_two_parts [''out''] fs_two_parts =
     (None,
      fs_two_parts @ [([''out'', ''d''], Dir), ([''out'', ''d'', ''f.txt''], File [1, 2])],
      [AttemptingMultiPartDirectly 2, UsingArchiveFile [''in'', ''a.zip.001''],
       ExtractingType ZIP, ExtractingArchive ZIP [''in'', ''a.zip.001''] [''out''],
       DirectExtractionFailedTryingMerged (ExtractError 1), MergingArchiveParts,
       MergedFileCreated [''out'', ''merged.001''], ExtractingFromMergedFile,
       ExtractingArchive ZIP [''out'', ''merged.001''] [''out''],
       ExtractionFromMergedSuccessful, RemovingMergedFile [''out'', ''merged.001'']])"
    by code_simp
  have h6: "merged_path_of unit_two_parts [''out''] = [''out'', ''merged.001'']"
    by code_simp
  have h7: "\<not> is_dir fs_two_parts [''out'', ''merged.001'']"
    by (simp add: is_dir_def node_at_def fs_two_parts_def)
  from merged_file_removed [OF h1 h2 h3 h4 h5] h6 h7
  have "\<not> path_exists
       (fs_two_parts @ [([''out'', ''d''], Dir), ([''out'', ''d'', ''f.txt''], File [1, 2])])
       [''out'', ''merged.001'']"
    by simp
  then show ?thesis using h1 h2 h3 h4 h5 h6 h7 by simp
qed

section \<open>Multi-part names in closed form\<close>

lemma digit_char_0 [simp]: "digit_char 0 = CHR ''0''"
  by (simp add: digit_char_def)

lemma str_nat_small: "n < 10 \<Longrightarrow> str_nat n = [digit_char n]"
  by (subst str_nat.simps) simp

lemma zfill3_str_nat:
  assumes "i < 1000"
  shows "zfill 3 (str_nat i) =
     [digit_char (i div 100), digit_char (i div 10 mod 10), digit_char (i mod 10)]"
proof -
  consider "i < 10" | "10 \<le> i" "i < 100" | "100 \<le> i" by linarith
  then show ?thesis
  proof cases
    case 1
    then show ?thesis by (simp add: str_nat_small zfill_def numeral_3_eq_3)
  next
    case 2
    then have "str_nat i = [digit_char (i div 10), digit_char (i mod 10)]"
      by (subst str_nat.simps) (simp add: str_nat_small)
    with 2 show ?thesis by (simp add: zfill_def)
  next
    case 3
    have a: "i div 10 < 100" "10 \<le> i div 10" using assms 3 by simp_all
    have "str_nat (i div 10) = [digit_char (i div 10 div 10), digit_char (i div 10 mod 10)]"
      using a by (subst str_nat.simps) (simp add: str_nat_small)
    moreover have "i div 10 div 10 = i div 100" by (simp add: div_mult2_eq)
    ultimately have "str_nat i = [digit_char (i div 100), digit_char (i div 10 mod 10), digit_char (i mod 10)]"
      using 3 by (subst str_nat.simps) simp
    then show ?thesis by (simp add: zfill_def)
  qed
qed

lemma digit_char_inj: "a < 10 \<Longrightarrow> b < 10 \<Longrightarrow> digit_char a = digit_char b \<Longrightarrow> a = b"
  unfolding digit_char_def
  by (subst (asm) nth_eq_iff_index_eq) simp_all

lemma digit_char_mem: "a < 10 \<Longrightarrow> digit_char a \<in> set ''0123456789''"
  unfolding digit_char_def by (rule nth_mem) simp

lemma digit_char_ex: "c \<in> set ''0123456789'' \<Longrightarrow> \<exists>a<10. c = digit_char a"
proof -
  assume "c \<in> set ''0123456789''"
  then obtain a where a: "a < length ''0123456789''" "''0123456789'' ! a = c"
    unfolding in_set_conv_nth by blast
  then have "a < 10" by simp
  moreover have "c = digit_char a" using a(2) by (simp only: digit_char_def)
  ultimately show ?thesis by blast
qed

lemma digit_char_9: "a < 10 \<Longrightarrow> digit_char a = CHR ''9'' \<longleftrightarrow> a = 9"
  using digit_char_inj [of a 9] by (auto simp: digit_char_def)

lemma digit_char_0_iff: "a < 10 \<Longrightarrow> digit_char a = CHR ''0'' \<longleftrightarrow> a = 0"
  using digit_char_inj [of a 0] by auto

lemma digits_decomp: "(i::nat) = 100 * (i div 100) + 10 * (i div 10 mod 10) + i mod 10"
proof -
  define q r h m where "q = i div 10" and "r = i mod 10" and "h = i div 100" and "m = i div 10 mod 10"
  have "i div 10 div 10 = i div 100" by (simp add: div_mult2_eq)
  then have a: "q = 10 * h + m"
    using div_mult_mod_eq [of "i div 10" 10] by (simp add: q_def h_def m_def)
  have b: "i = 10 * q + r"
    using div_mult_mod_eq [of i 10] by (simp add: q_def r_def)
  have "i = 100 * h + 10 * m + r" unfolding b a by simp
  then show ?thesis by (simp only: h_def m_def r_def)
qed

lemma digits_comp:
  fixes x y z :: nat
  assumes "x < 10" "y < 10" "z < 10"
  shows "(100 * x + 10 * y + z) div 100 = x" "(100 * x + 10 * y + z) div 10 mod 10 = y"
    "(100 * x + 10 * y + z) mod 10 = z"
proof -
  have e1: "100 * x + 10 * y + z = z + 10 * (10 * x + y)" by simp
  have e2: "100 * x + 10 * y + z = (10 * y + z) + 100 * x" by simp
  have e3: "10 * x + y = y + 10 * x" by simp
  show "(100 * x + 10 * y + z) mod 10 = z"
    unfolding e1 using assms(3) by (simp only: mod_mult_self2 mod_less)
  have "(100 * x + 10 * y + z) div 10 = 10 * x + y"
    unfolding e1 using assms(3) by (simp only: div_mult_self2 div_less)
  then show "(100 * x + 10 * y + z) div 10 mod 10 = y"
    unfolding e3 using assms(2) by (simp only: mod_mult_self2 mod_less)
  have "10 * y + z < 100" using assms by simp
  then show "(100 * x + 10 * y + z) div 100 = x"
    unfolding e2 by (simp only: div_mult_self2 div_less)
qed

lemma part_number_iff:
  "is_part_number d \<longleftrightarrow> (\<exists>i\<in>set [1..<999]. d = zfill 3 (str_nat i))"
proof
  assume "is_part_number d"
  then obtain a b c where d: "d = [a, b, c]"
    and m: "a \<in> set ''0123456789''" "b \<in> set ''0123456789''" "c \<in> set ''0123456789''"
    and n0: "d \<noteq> ''000''" and n9: "d \<noteq> ''999''"
    by (cases d; cases "tl d"; cases "tl (tl d)") (auto simp: is_part_number_def)
  from m obtain x y z where x: "x < 10" "a = digit_char x" and y: "y < 10" "b = digit_char y"
    and z: "z < 10" "c = digit_char z"
    by (blast dest: digit_char_ex)
  let ?i = "100 * x + 10 * y + z"
  have lt: "?i < 1000" using x y z by simp
  have dv: "?i div 100 = x" "?i div 10 mod 10 = y" "?i mod 10 = z"
    using x(1) y(1) z(1) by (rule digits_comp)+
  have eq: "zfill 3 (str_nat ?i) = d"
    using zfill3_str_nat [OF lt] unfolding dv by (simp add: d x y z)
  have "?i \<noteq> 0" using n0 d x y z by (auto simp: digit_char_0_iff)
  moreover have "?i \<noteq> 999"
  proof
    assume n: "?i = 999"
    have "x = 9" using dv(1) unfolding n by simp
    moreover have "y = 9" using dv(2) unfolding n by simp
    moreover have "z = 9" using dv(3) unfolding n by simp
    ultimately have "x = 9 \<and> y = 9 \<and> z = 9" by simp
    then show False using n9 d x y z by (simp add: digit_char_def)
  qed
  ultimately have "1 \<le> ?i \<and> ?i < 999" using lt by linarith
  then have "?i \<in> set [1..<999]" by simp
  with eq show "\<exists>i\<in>set [1..<999]. d = zfill 3 (str_nat i)" by metis
next
  assume "\<exists>i\<in>set [1..<999]. d = zfill 3 (str_nat i)"
  then obtain i where i: "1 \<le> i" "i < 999" and d: "d = zfill 3 (str_nat i)" by auto
  have lt: "i < 1000" using i by simp
  have e: "d = [digit_char (i div 100), digit_char (i div 10 mod 10), digit_char (i mod 10)]"
    using zfill3_str_nat [OF lt] d by simp
  have b: "i div 100 < 10" "i div 10 mod 10 < 10" "i mod 10 < 10" using lt by simp_all
  have "d \<noteq> ''000''"
  proof
    assume "d = ''000''"
    then have "[digit_char (i div 100), digit_char (i div 10 mod 10), digit_char (i mod 10)] =
        [CHR ''0'', CHR ''0'', CHR ''0'']" unfolding e .
    then have "digit_char (i div 100) = CHR ''0''" "digit_char (i div 10 mod 10) = CHR ''0''"
      "digit_char (i mod 10) = CHR ''0''" by (simp_all only: list.inject)
    then have "i div 100 = 0 \<and> i div 10 mod 10 = 0 \<and> i mod 10 = 0"
      using b by (simp only: digit_char_0_iff)
    then have "i = 0" by (subst digits_decomp) simp
    with i show False by simp
  qed
  moreover have "d \<noteq> ''999''"
  proof
    assume "d = ''999''"
    then have "[digit_char (i div 100), digit_char (i div 10 mod 10), digit_char (i mod 10)] =
        [CHR ''9'', CHR ''9'', CHR ''9'']" unfolding e .
    then have "digit_char (i div 100) = CHR ''9''" "digit_char (i div 10 mod 10) = CHR ''9''"
      "digit_char (i mod 10) = CHR ''9''" by (simp_all only: list.inject)
    then have "i div 100 = 9 \<and> i div 10 mod 10 = 9 \<and> i mod 10 = 9"
      using b by (simp only: digit_char_9)
    then have "i = 999" by (subst digits_decomp) simp
    with i show False by simp
  qed
  moreover have "length d = 3" unfolding e by simp
  moreover have "list_all (\<lambda>c. c \<in> set ''0123456789'') d"
    unfolding e using b [THEN digit_char_mem] by (simp only: list.pred_inject simp_thms)
  ultimately show "is_part_number d"
    unfolding is_part_number_def by blast
qed

lemma suffix_split:
  "length d = 3 \<Longrightarrow> suffix (ext @ d) s \<longleftrightarrow>
     length ext + 3 \<le> length s \<and>
     take (length ext) (drop (length s - (length ext + 3)) s) = ext \<and>
     drop (length s - 3) s = d"
proof
  assume l: "length d = 3" and "suffix (ext @ d) s"
  then obtain pre where "s = pre @ ext @ d" by (auto simp: suffix_def)
  with l show "length ext + 3 \<le> length s \<and>
     take (length ext) (drop (length s - (length ext + 3)) s) = ext \<and>
     drop (length s - 3) s = d" by simp
next
  assume l: "length d = 3" and r: "length ext + 3 \<le> length s \<and>
     take (length ext) (drop (length s - (length ext + 3)) s) = ext \<and>
     drop (length s - 3) s = d"
  let ?k = "length s - (length ext + 3)"
  have "s = take ?k s @ drop ?k s" by simp
  also have "drop ?k s = take (length ext) (drop ?k s) @ drop (length ext) (drop ?k s)"
    by (simp only: append_take_drop_id)
  also have "drop (length ext) (drop ?k s) = drop (length s - 3) s"
    using r by (simp add: add.commute)
  finally have "s = take ?k s @ ext @ d" using r by simp
  then show "suffix (ext @ d) s" by (metis suffixI)
qed

lemma ends_with_part_code [code]:
  "ends_with_part ext s \<longleftrightarrow>
     length ext + 3 \<le> length s \<and>
     take (length ext) (drop (length s - (length ext + 3)) s) = ext \<and>
     is_part_number (drop (length s - 3) s)"
proof -
  have z: "length (zfill 3 (str_nat i)) = 3" if "i \<in> set [1..<999]" for i
    using that zfill3_str_nat [of i] by simp
  have "ends_with_part ext s \<longleftrightarrow> (\<exists>i\<in>set [1..<999]. suffix (ext @ zfill 3 (str_nat i)) s)"
    by (simp add: ends_with_part_def list_ex_iff)
  also have "\<dots> \<longleftrightarrow> (\<exists>i\<in>set [1..<999]. length ext + 3 \<le> length s \<and>
     take (length ext) (drop (length s - (length ext + 3)) s) = ext \<and>
     drop (length s - 3) s = zfill 3 (str_nat i))"
    using suffix_split [OF z] by blast
  also have "\<dots> \<longleftrightarrow> length ext + 3 \<le> length s \<and>
     take (length ext) (drop (length s - (length ext + 3)) s) = ext \<and>
     is_part_number (drop (length s - 3) s)"
    unfolding part_number_iff by blast
  finally show ?thesis .
qed

section \<open>Recursive extraction: claim C3\<close>

lemma nested_names:
  "generate_folder_name svc_nested x = x"
  "unzip_temp_dir (path_config svc_nested) = [''t1'']"
  "target_temp_dir (path_config svc_nested) = [''t3'']"
  "source_dir (path_config svc_nested) = [''src'']"
  by (simp_all add: generate_folder_name_def svc_nested_def config_demo_def)

lemma stuck_listing:
  "path_exists fs_stuck [''t1'', ''X'']" "contains_files fs_stuck [''t1'', ''X'']"
  "get_file_list fs_stuck [''t1'', ''X''] = [[''t1'', ''X'', ''bad.zip'']]"
  by code_simp+

lemma stuck_pass:
  "process_temp_files svc_nested ''X'' [[''t1'', ''X'', ''bad.zip'']] False fs_stuck =
     (None, True, fs_stuck)"
  by code_simp

lemma stuck_loop: "process_unzip_temp_archives svc_nested ''X'' fs_stuck = None"
proof (rule ccontr)
  assume "process_unzip_temp_archives svc_nested ''X'' fs_stuck \<noteq> None"
  then obtain y where y: "process_unzip_temp_archives svc_nested ''X'' fs_stuck = Some y"
    by auto
  note ri = process_unzip_temp_archives.raw_induct
      [where P = "\<lambda>svc x fs y. \<not> (svc = svc_nested \<and> x = ''X'' \<and> fs = fs_stuck)"
        and xa = "((svc_nested, ''X''), fs_stuck)" and y = y, unfolded prod.case]
  have "\<not> (svc_nested = svc_nested \<and> ''X'' = ''X'' \<and> fs_stuck = fs_stuck)"
  proof (rule ri)
    show "process_unzip_temp_archives svc_nested ''X'' fs_stuck = Some y" by (rule y)
  next
    fix f svc x fs r
    assume ih: "\<And>svc x fs r. f svc x fs = Some r \<Longrightarrow>
        \<not> (svc = svc_nested \<and> x = ''X'' \<and> fs = fs_stuck)"
      and step: "(if \<not> path_exists fs (path_join (unzip_temp_dir (path_config svc)) (generate_folder_name svc x)) \<or>
         \<not> contains_files fs (path_join (unzip_temp_dir (path_config svc)) (generate_folder_name svc x))
      then Some (None, fs)
      else
        (case process_temp_files svc x
                (get_file_list fs (path_join (unzip_temp_dir (path_config svc)) (generate_folder_name svc x)))
                False fs of
           (Some e, has_archives, fs') \<Rightarrow> Some (Some e, fs')
         | (None, has_archives, fs') \<Rightarrow>
             if \<not> has_archives then Some (None, fs')
             else f svc x fs')) = Some r"
    show "\<not> (svc = svc_nested \<and> x = ''X'' \<and> fs = fs_stuck)"
    proof
      assume a: "svc = svc_nested \<and> x = ''X'' \<and> fs = fs_stuck"
      with step have "f svc_nested ''X'' fs_stuck = Some r"
        by (simp add: nested_names path_join_def stuck_listing stuck_pass
            del: process_temp_files.simps)
      from ih [OF this] show False by simp
    qed
  qed
  then show False by simp
qed

lemma nested_staging:
  "stage_archives svc_nested ''X''
     (map snd (prepare_archive_info svc_nested fs_nested ''X'' [[''src'', ''X'', ''outer.zip'']]))
     fs_nested = (None, fs_stuck)"
  by code_simp

lemma nested_reset:
  "then_do (reset_dir (unzip_temp_dir (path_config svc_nested)) fs_nested)
     (reset_dir (target_temp_dir (path_config svc_nested))) = (None, fs_nested)"
  by code_simp

lemma nested_collect:
  "collect_archive_files svc_nested fs_nested [] =
     Inr ([(''X'', [[''src'', ''X'', ''outer.zip'']])], [(''X'', [''src'', ''X''])])"
  by code_simp

text \<open>
  Claim C3 says that the loop of \<open>process_unzip_temp_archives\<close> ends for every item,
  also when an extraction fails. It does not: an archive whose extraction fails stays in
  the inbound staging directory, the next pass finds it again and sets \<^verbatim>\<open>has_archives\<close>
  again. Staging the item \<^verbatim>\<open>X\<close>, whose archive holds a nested archive that cannot be
  unpacked, succeeds and leaves \<open>fs_stuck\<close>; from there the loop does not return, and so
  neither \<open>process_single_id\<close> nor \<open>process_archives\<close> does.
\<close>

theorem recursive_extract_never_returns:
  "stage_archives svc_nested ''X''
     (map snd (prepare_archive_info svc_nested fs_nested ''X'' [[''src'', ''X'', ''outer.zip'']]))
     fs_nested = (None, fs_stuck) \<and>
   process_unzip_temp_archives svc_nested ''X'' fs_stuck = None \<and>
   process_single_id svc_nested ''X'' [[''src'', ''X'', ''outer.zip'']] [''src'', ''X'']
     (fs_nested, []) = None \<and>
   process_archives svc_nested (fs_nested, []) = None"
proof -
  have single: "process_single_id svc_nested ''X'' [[''src'', ''X'', ''outer.zip'']] [''src'', ''X'']
     (fs_nested, []) = None"
    by (simp add: process_single_id_def nested_staging stuck_loop)
  have "process_archives svc_nested (fs_nested, []) = None"
    by (simp add: process_archives_def nested_reset nested_collect single)
  with single nested_staging stuck_loop show ?thesis by simp
qed

section \<open>Fragment Collector: claim C9\<close>

text \<open>
  Claim C9 says that collecting the fragments of a file returns a list: the matching
  entries of its directory, or the file alone when its name follows no multi-part
  convention. For the archive \<^verbatim>\<open>particles.rar\<close> it returns nothing:
  \<open>is_multipart_archive\<close> accepts the name (it starts with \<^verbatim>\<open>part\<close> and ends with
  \<^verbatim>\<open>.rar\<close>), the name holds none of \<^verbatim>\<open>.7z.\<close>, \<^verbatim>\<open>.zip.\<close> and \<^verbatim>\<open>.part\<close>, and
  \<open>collect_multipart_archive\<close> raises \<^verbatim>\<open>ValueError\<close>, which ends the recursive extraction
  of the item.
\<close>

theorem collect_multipart_archive_raises:
  "is_multipart_archive [''t1'', ''X'', ''particles.rar''] \<and>
   \<not> str_contains ''.part'' (lower (name [''t1'', ''X'', ''particles.rar''])) \<and>
   detect_archive_type fs_particles [''t1'', ''X'', ''particles.rar''] = RAR \<and>
   collect_multipart_archive fs_particles [''t1'', ''X'', ''particles.rar''] = Inl ValueError \<and>
   process_unzip_temp_archives svc_nested ''X'' fs_particles = Some (Some ValueError, fs_particles)"
proof -
  have a: "is_multipart_archive [''t1'', ''X'', ''particles.rar'']"
    and b: "\<not> str_contains ''.part'' (lower (name [''t1'', ''X'', ''particles.rar'']))"
    and c: "detect_archive_type fs_particles [''t1'', ''X'', ''particles.rar''] = RAR"
    and d: "collect_multipart_archive fs_particles [''t1'', ''X'', ''particles.rar''] = Inl ValueError"
    by code_simp+
  have l: "path_exists fs_particles [''t1'', ''X'']" "contains_files fs_particles [''t1'', ''X'']"
    "get_file_list fs_particles [''t1'', ''X''] = [[''t1'', ''X'', ''particles.rar'']]"
    by code_simp+
  have "process_temp_files svc_nested ''X'' [[''t1'', ''X'', ''particles.rar'']] False fs_particles =
      (Some ValueError, True, fs_particles)"
    by (simp add: a c d)
  then have "process_unzip_temp_archives svc_nested ''X'' fs_particles =
      Some (Some ValueError, fs_particles)"
    by (subst process_unzip_temp_archives.simps) (simp add: nested_names path_join_def l)
  with a b c d show ?thesis by simp
qed

section \<open>Relocation: claim C2\<close>

text \<open>
  Claim C2 says that with \<open>skip_parent_levels = 1\<close> a staged file
  \<^verbatim>\<open>outer/inner/file.txt\<close> lands at \<^verbatim>\<open>inner/file.txt\<close> below the target root. It lands at
  \<^verbatim>\<open>outer/inner/file.txt\<close>: the loop of \<open>move_to_target\<close> runs over the entries directly
  below the staging directory, whose relative paths have one segment, so the test
  \<^verbatim>\<open>len(parts) > skip_levels\<close> never holds and every entry keeps its name. The same
  happens with \<open>skip_parent_levels = 2\<close>. With \<open>skip_parent_levels = 0\<close> the file lands
  below the item's folder, as the claim says.
\<close>

theorem skip_parent_levels_discards_nothing:
  "move_to_target (svc_skip 1) [''t3'', ''X''] ''X'' [''src'', ''X''] (fs_staged, []) =
     (None, fs_relocated,
      [\<lparr>h_id = ''X'', h_src_path = [''src'', ''X''], h_dst_path = [''target'']\<rparr>]) \<and>
   is_file fs_relocated [''target'', ''outer'', ''inner'', ''file.txt''] \<and>
   \<not> path_exists fs_relocated [''target'', ''inner'', ''file.txt''] \<and>
   fst (snd (move_to_target (svc_skip 2) [''t3'', ''X''] ''X'' [''src'', ''X''] (fs_staged, []))) =
     fs_relocated \<and>
   is_file
     (fst (snd (move_to_target (svc_skip 0) [''t3'', ''X''] ''X'' [''src'', ''X''] (fs_staged, []))))
     [''target'', ''X'', ''outer'', ''inner'', ''file.txt'']"
  by code_simp

section \<open>Idempotent re-runs: claim C6\<close>

lemma collect_items_all_skipped:
  assumes "\<forall>item\<in>set items.
      (query_history_by_src_path history item \<noteq> None \<or>
       query_history_by_id history (get_path_id fs item) \<noteq> None) \<and>
      is_all_processed svc fs (get_path_id fs item) = Inr True"
  shows "collect_items svc fs history items acc = Inr acc"
  using assms
proof (induction items)
  case Nil
  then show ?case by simp
next
  case (Cons item items)
  obtain id_files id_sources where acc: "acc = (id_files, id_sources)" by (cases acc)
  from Cons show ?case unfolding acc by (simp add: Let_def)
qed

lemma is_all_processed_other_db: "db_type svc \<noteq> VAMVIDEO \<Longrightarrow> is_all_processed svc fs x = Inr True"
  by (simp add: is_all_processed_def)

lemma filter_set_all: "(set (filter P xs) = set xs) = (\<forall>x\<in>set xs. P x)"
  by auto

lemma is_all_processed_video:
  assumes "db_type svc = VAMVIDEO"
  shows "is_all_processed svc fs x =
     (if \<not> path_exists fs (path_join (target_dir (path_config svc)) (generate_folder_name svc x)) then Inr False
      else if length (required_resolutions (generate_folder_name svc x)) \<le> 1 then Inr True
      else case iterdir fs (path_join (target_dir (path_config svc)) (generate_folder_name svc x)) of
             Inl e \<Rightarrow> Inl e
           | Inr entries \<Rightarrow>
               Inr (\<forall>res\<in>set (required_resolutions (generate_folder_name svc x)).
                      \<exists>e\<in>set entries. str_contains res (name e)))"
  using assms
  unfolding is_all_processed_def Let_def and_then_def filter_set_all list_ex_iff
  by (simp split: sum.splits)

lemma update_not_Nil: "AList.update k v al \<noteq> []"
  by (cases al) (auto split: prod.splits)

lemma collect_items_grows:
  assumes "collect_items svc fs history items (f, s) = Inr (f', s')" and "f \<noteq> []"
  shows "f' \<noteq> []"
  using assms
proof (induction items arbitrary: f s)
  case Nil
  then show ?case by simp
next
  case (Cons item items)
  let ?x = "get_path_id fs item"
  let ?f = "AList.update ?x (if is_file fs item then [item] else rglob fs item) f"
  let ?s = "AList.update ?x item s"
  from Cons.prems(1) have
    "collect_items svc fs history items (f, s) = Inr (f', s') \<or>
     collect_items svc fs history items (?f, ?s) = Inr (f', s')"
    by (auto simp: Let_def split: if_splits sum.splits bool.splits)
  then show ?case
  proof
    assume "collect_items svc fs history items (f, s) = Inr (f', s')"
    then show ?thesis using Cons.prems(2) by (rule Cons.IH)
  next
    assume "collect_items svc fs history items (?f, ?s) = Inr (f', s')"
    then show ?thesis using update_not_Nil by (rule Cons.IH)
  qed
qed

lemma collect_items_empty:
  assumes "collect_items svc fs history items ([], []) = Inr ([], [])"
    and "\<forall>item\<in>set items.
      query_history_by_src_path history item \<noteq> None \<or>
      query_history_by_id history (get_path_id fs item) \<noteq> None"
  shows "\<forall>item\<in>set items. is_all_processed svc fs (get_path_id fs item) = Inr True"
  using assms
proof (induction items)
  case Nil
  then show ?case by simp
next
  case (Cons item items)
  let ?x = "get_path_id fs item"
  let ?f = "AList.update ?x (if is_file fs item then [item] else rglob fs item) []"
  let ?s = "AList.update ?x item []"
  have rec: "query_history_by_src_path history item \<noteq> None \<or>
      query_history_by_id history ?x \<noteq> None"
    using Cons.prems(2) by simp
  have "is_all_processed svc fs ?x = Inr True"
  proof (rule ccontr)
    assume n: "is_all_processed svc fs ?x \<noteq> Inr True"
    with Cons.prems(1) rec have "collect_items svc fs history items (?f, ?s) = Inr ([], [])"
      by (auto simp: Let_def split: if_splits sum.splits bool.splits)
    from collect_items_grows [OF this update_not_Nil] show False by simp
  qed
  moreover from this Cons.prems(1) rec
  have "collect_items svc fs history items ([], []) = Inr ([], [])"
    by (auto simp: Let_def)
  then have "\<forall>item\<in>set items. is_all_processed svc fs (get_path_id fs item) = Inr True"
    using Cons.prems(2) by (intro Cons.IH) simp_all
  ultimately show ?case by simp
qed

lemma is_all_processed_True_iff:
  "is_all_processed svc fs x = Inr True \<longleftrightarrow>
     (db_type svc = VAMVIDEO \<longrightarrow>
        path_exists fs (path_join (target_dir (path_config svc)) (generate_folder_name svc x)) \<and>
        (length (required_resolutions (generate_folder_name svc x)) \<le> 1 \<or>
         (\<exists>entries.
            iterdir fs (path_join (target_dir (path_config svc)) (generate_folder_name svc x)) =
              Inr entries \<and>
            (\<forall>res\<in>set (required_resolutions (generate_folder_name svc x)).
               \<exists>e\<in>set entries. str_contains res (name e)))))"
proof (cases "db_type svc = VAMVIDEO")
  case False
  then show ?thesis by (simp add: is_all_processed_other_db)
next
  case True
  show ?thesis
    unfolding is_all_processed_video [OF True] using True
    by (auto split: sum.splits)
qed

text \<open>
  Claim C6, as stated, fails for the video database: there a recorded item is collected
  again unless \<open>is_all_processed\<close> holds. The first run of \<open>svc_video\<close> records the item
  \<^verbatim>\<open>X\<close>, whose folder name asks for the resolutions \<^verbatim>\<open>2k\<close> and \<^verbatim>\<open>4k\<close> while its target
  folder holds an entry for \<^verbatim>\<open>2k\<close> only; the second run over the same source root finds
  the record, collects the item all the same and saves a second record.
\<close>

theorem rerun_writes_again:
  "process_archives svc_video (fs_video, []) = Some (None, fs_video_done, [record_x]) \<and>
   iterdir fs_video_done [''src''] = Inr [[''src'', ''X.zip'']] \<and>
   query_history_by_id [record_x] (get_path_id fs_video_done [''src'', ''X.zip'']) = Some record_x \<and>
   query_history_by_src_path [record_x] [''src'', ''X.zip''] = Some record_x \<and>
   collect_archive_files svc_video fs_video_done [record_x] =
     Inr ([(''X'', [[''src'', ''X.zip'']])], [(''X'', [''src'', ''X.zip''])]) \<and>
   process_archives svc_video (fs_video_done, [record_x]) =
     Some (None, fs_video_done, [record_x, record_x])"
  by code_simp

text \<open>
  Claim C6, amended. Let the staging roots be reset, the source root be listed, and let
  every entry of the source root be known to the history by its path or by its identity.
  Then the collection is empty exactly when the database is other than the video database
  or, for every entry, the folder of its folder name exists in the target root and either
  the folder name asks for at most one resolution, or the entries of that folder can be
  listed and each resolution asked for occurs in the name of one of them. And when this
  holds the run returns with the history as it was: no record is written.
\<close>

theorem rerun_skips_recorded_items:
  assumes "then_do (reset_dir (unzip_temp_dir (path_config svc)) fs)
             (reset_dir (target_temp_dir (path_config svc))) = (None, fs1)"
    and "iterdir fs1 (source_dir (path_config svc)) = Inr items"
    and "\<forall>item\<in>set items.
           query_history_by_src_path history item \<noteq> None \<or>
           query_history_by_id history (get_path_id fs1 item) \<noteq> None"
  shows "((collect_archive_files svc fs1 history = Inr ([], [])) =
          (db_type svc = VAMVIDEO \<longrightarrow>
            (\<forall>item\<in>set items.
               path_exists fs1
                 (path_join (target_dir (path_config svc))
                    (generate_folder_name svc (get_path_id fs1 item))) \<and>
               (length (required_resolutions (generate_folder_name svc (get_path_id fs1 item))) \<le> 1 \<or>
                (\<exists>entries.
                   iterdir fs1
                     (path_join (target_dir (path_config svc))
                        (generate_folder_name svc (get_path_id fs1 item))) =
                     Inr entries \<and>
                   (\<forall>res\<in>set (required_resolutions
                         (generate_folder_name svc (get_path_id fs1 item))).
                      \<exists>e\<in>set entries. str_contains res (name e))))))) \<and>
         ((db_type svc = VAMVIDEO \<longrightarrow>
            (\<forall>item\<in>set items.
               path_exists fs1
                 (path_join (target_dir (path_config svc))
                    (generate_folder_name svc (get_path_id fs1 item))) \<and>
               (length (required_resolutions (generate_folder_name svc (get_path_id fs1 item))) \<le> 1 \<or>
                (\<exists>entries.
                   iterdir fs1
                     (path_join (target_dir (path_config svc))
                        (generate_folder_name svc (get_path_id fs1 item))) =
                     Inr entries \<and>
                   (\<forall>res\<in>set (required_resolutions
                         (generate_folder_name svc (get_path_id fs1 item))).
                      \<exists>e\<in>set entries. str_contains res (name e)))))) \<longrightarrow>
          process_archives svc (fs, history) = Some (None, fs1, history))"
proof -
  have cond: "(\<forall>item\<in>set items. is_all_processed svc fs1 (get_path_id fs1 item) = Inr True) =
          (db_type svc = VAMVIDEO \<longrightarrow>
            (\<forall>item\<in>set items.
               path_exists fs1
                 (path_join (target_dir (path_config svc))
                    (generate_folder_name svc (get_path_id fs1 item))) \<and>
               (length (required_resolutions (generate_folder_name svc (get_path_id fs1 item))) \<le> 1 \<or>
                (\<exists>entries.
                   iterdir fs1
                     (path_join (target_dir (path_config svc))
                        (generate_folder_name svc (get_path_id fs1 item))) =
                     Inr entries \<and>
                   (\<forall>res\<in>set (required_resolutions
                         (generate_folder_name svc (get_path_id fs1 item))).
                      \<exists>e\<in>set entries. str_contains res (name e))))))"
    unfolding is_all_processed_True_iff by blast
  have c: "collect_archive_files svc fs1 history = collect_items svc fs1 history items ([], [])"
    using assms(2) by (simp add: collect_archive_files_def and_then_def)
  have skip: "collect_items svc fs1 history items ([], []) = Inr ([], [])"
    if "\<forall>item\<in>set items. is_all_processed svc fs1 (get_path_id fs1 item) = Inr True"
  proof (rule collect_items_all_skipped)
    show "\<forall>item\<in>set items.
      (query_history_by_src_path history item \<noteq> None \<or>
       query_history_by_id history (get_path_id fs1 item) \<noteq> None) \<and>
      is_all_processed svc fs1 (get_path_id fs1 item) = Inr True"
      using assms(3) that by blast
  qed
  have iff: "(collect_archive_files svc fs1 history = Inr ([], [])) =
      (\<forall>item\<in>set items. is_all_processed svc fs1 (get_path_id fs1 item) = Inr True)"
    unfolding c using skip collect_items_empty [OF _ assms(3)] by blast
  have run: "process_archives svc (fs, history) = Some (None, fs1, history)"
    if "collect_archive_files svc fs1 history = Inr ([], [])"
    using that assms(1) by (simp add: process_archives_def)
  from iff cond run show ?thesis by (simp only:) blast
qed

theorem rerun_skips_recorded_items_witness:
  "process_archives (svc_video\<lparr>db_type := LOIBUS\<rparr>) (fs_video, []) =
     Some (None, fs_video_done, [record_x]) \<and>
   then_do (reset_dir [''t1''] fs_video_done) (reset_dir [''t3'']) = (None, fs_plain_done) \<and>
   iterdir fs_plain_done [''src''] = Inr [[''src'', ''X.zip'']] \<and>
   query_history_by_src_path [record_x] [''src'', ''X.zip''] = Some record_x \<and>
   collect_archive_files (svc_video\<lparr>db_type := LOIBUS\<rparr>) fs_plain_done [record_x] = Inr ([], []) \<and>
   process_archives (svc_video\<lparr>db_type := LOIBUS\<rparr>) (fs_video_done, [record_x]) =
     Some (None, fs_plain_done, [record_x]) \<and>
   db_type svc_video = VAMVIDEO \<and>
   then_do (reset_dir [''t1''] fs_video_full) (reset_dir [''t3'']) = (None, fs_video_kept) \<and>
   iterdir fs_video_kept [''src''] = Inr [[''src'', ''X.zip'']] \<and>
   generate_folder_name svc_video (get_path_id fs_video_kept [''src'', ''X.zip'']) = ''[X] clip 2k 4k'' \<and>
   path_exists fs_video_kept [''target'', ''[X] clip 2k 4k''] \<and>
   required_resolutions ''[X] clip 2k 4k'' = [''2k'', ''4k''] \<and>
   iterdir fs_video_kept [''target'', ''[X] clip 2k 4k''] =
     Inr [[''target'', ''[X] clip 2k 4k'', ''clip_2k.mp4''],
          [''target'', ''[X] clip 2k 4k'', ''clip_4k.mp4'']] \<and>
   str_contains ''2k'' ''clip_2k.mp4'' \<and> str_contains ''4k'' ''clip_4k.mp4'' \<and>
   collect_archive_files svc_video fs_video_kept [record_x] = Inr ([], []) \<and>
   process_archives svc_video (fs_video_full, [record_x]) = Some (None, fs_video_kept, [record_x])"
proof -
  let ?svc = "svc_video\<lparr>db_type := LOIBUS\<rparr>"
  have p: "unzip_temp_dir (path_config svc_video) = [''t1'']"
    "target_temp_dir (path_config svc_video) = [''t3'']"
    "source_dir (path_config svc_video) = [''src'']"
    "target_dir (path_config svc_video) = [''target'']"
    by (simp_all add: svc_video_def config_demo_def)
  have h0: "process_archives ?svc (fs_video, []) = Some (None, fs_video_done, [record_x])"
    by code_simp
  have h1: "then_do (reset_dir (unzip_temp_dir (path_config ?svc)) fs_video_done)
             (reset_dir (target_temp_dir (path_config ?svc))) = (None, fs_plain_done)"
    by code_simp
  have h2: "iterdir fs_plain_done (source_dir (path_config ?svc)) = Inr [[''src'', ''X.zip'']]"
    by code_simp
  have q: "query_history_by_src_path [record_x] [''src'', ''X.zip''] = Some record_x"
    by code_simp
  then have h3: "\<forall>item\<in>set [[''src'', ''X.zip'']].
           query_history_by_src_path [record_x] item \<noteq> None \<or>
           query_history_by_id [record_x] (get_path_id fs_plain_done item) \<noteq> None"
    by simp
  have l: "db_type ?svc \<noteq> VAMVIDEO" by simp
  note plain = rerun_skips_recorded_items [of ?svc fs_video_done fs_plain_done "[[''src'', ''X.zip'']]"
      "[record_x]", OF h1 h2 h3]
  have v: "db_type svc_video = VAMVIDEO" by (simp add: svc_video_def)
  have k1: "then_do (reset_dir (unzip_temp_dir (path_config svc_video)) fs_video_full)
             (reset_dir (target_temp_dir (path_config svc_video))) = (None, fs_video_kept)"
    by code_simp
  have k2: "iterdir fs_video_kept (source_dir (path_config svc_video)) = Inr [[''src'', ''X.zip'']]"
    by code_simp
  from q have k3: "\<forall>item\<in>set [[''src'', ''X.zip'']].
           query_history_by_src_path [record_x] item \<noteq> None \<or>
           query_history_by_id [record_x] (get_path_id fs_video_kept item) \<noteq> None"
    by simp
  have n: "generate_folder_name svc_video (get_path_id fs_video_kept [''src'', ''X.zip'']) =
      ''[X] clip 2k 4k''"
    by code_simp
  have e: "path_exists fs_video_kept [''target'', ''[X] clip 2k 4k'']"
    by code_simp
  have r: "required_resolutions ''[X] clip 2k 4k'' = [''2k'', ''4k'']"
    by code_simp
  have i: "iterdir fs_video_kept [''target'', ''[X] clip 2k 4k''] =
     Inr [[''target'', ''[X] clip 2k 4k'', ''clip_2k.mp4''],
          [''target'', ''[X] clip 2k 4k'', ''clip_4k.mp4'']]"
    by code_simp
  have s: "str_contains ''2k'' ''clip_2k.mp4''" "str_contains ''4k'' ''clip_4k.mp4''"
    "name [''target'', ''[X] clip 2k 4k'', ''clip_2k.mp4''] = ''clip_2k.mp4''"
    "name [''target'', ''[X] clip 2k 4k'', ''clip_4k.mp4''] = ''clip_4k.mp4''"
    by code_simp+
  have k4: "db_type svc_video = VAMVIDEO \<longrightarrow>
         (\<forall>item\<in>set [[''src'', ''X.zip'']].
            path_exists fs_video_kept
              (path_join (target_dir (path_config svc_video)) (generate_folder_name svc_video (get_path_id fs_video_kept item))) \<and>
            (length (required_resolutions
                (generate_folder_name svc_video (get_path_id fs_video_kept item))) \<le> 1 \<or>
             (\<exists>entries.
                iterdir fs_video_kept
                  (path_join (target_dir (path_config svc_video)) (generate_folder_name svc_video (get_path_id fs_video_kept item))) =
                  Inr entries \<and>
                (\<forall>res\<in>set (required_resolutions
                      (generate_folder_name svc_video (get_path_id fs_video_kept item))).
                   \<exists>e\<in>set entries. str_contains res (name e)))))"
    using e i s by (simp add: p n r path_join_def)
  note video = rerun_skips_recorded_items [of svc_video fs_video_full fs_video_kept
      "[[''src'', ''X.zip'']]" "[record_x]", OF k1 k2 k3]
  from plain [THEN conjunct1] plain [THEN conjunct2] l have a: "collect_archive_files ?svc fs_plain_done [record_x] = Inr ([], [])"
    "process_archives ?svc (fs_video_done, [record_x]) = Some (None, fs_plain_done, [record_x])"
    by simp_all
  from video [THEN conjunct1] video [THEN conjunct2] k4 have b: "collect_archive_files svc_video fs_video_kept [record_x] = Inr ([], [])"
    "process_archives svc_video (fs_video_full, [record_x]) = Some (None, fs_video_kept, [record_x])"
    by simp_all
  have c: "then_do (reset_dir [''t1''] fs_video_done) (reset_dir [''t3'']) = (None, fs_plain_done)"
    "iterdir fs_plain_done [''src''] = Inr [[''src'', ''X.zip'']]"
    "then_do (reset_dir [''t1''] fs_video_full) (reset_dir [''t3'']) = (None, fs_video_kept)"
    "iterdir fs_video_kept [''src''] = Inr [[''src'', ''X.zip'']]"
    using h1 h2 k1 k2 by (simp_all add: p)
  show ?thesis
    by (intro conjI) (rule h0 c q a v n e r i s(1) s(2) b)+
qed

section \<open>Collecting and staging files of unknown format: claim C1\<close>

lemma prepare_loop_invariant:
  assumes "\<And>b a. map_of acc b = Some a \<Longrightarrow>
      ai_type a \<noteq> UNKNOWN \<and> ai_type a = detect_archive_type fs (ai_path a) \<and>
      base_name_of (ai_path a) = b \<and> ai_path a \<in> S \<and> ai_parts a \<noteq> [] \<and>
      hd (ai_parts a) = ai_path a \<and> set (ai_parts a) \<subseteq> S"
    and "set files \<subseteq> S"
    and "map_of (prepare_loop svc fs x files acc) b = Some a"
  shows "ai_type a \<noteq> UNKNOWN \<and> ai_type a = detect_archive_type fs (ai_path a) \<and>
      base_name_of (ai_path a) = b \<and> ai_path a \<in> S \<and> ai_parts a \<noteq> [] \<and>
      hd (ai_parts a) = ai_path a \<and> set (ai_parts a) \<subseteq> S"
  using assms
proof (induction files arbitrary: acc)
  case Nil
  from Nil.prems(3) have "map_of acc b = Some a" by simp
  then show ?case by (rule Nil.prems(1))
next
  case (Cons f files)
  show ?case
  proof (cases "map_of acc (base_name_of f)")
    case None
    show ?thesis
    proof (cases "detect_archive_type fs f = UNKNOWN")
      case True
      with None Cons.prems(3) have r: "map_of (prepare_loop svc fs x files acc) b = Some a" by simp
      show ?thesis
      proof (rule Cons.IH [of acc, OF _ _ r])
        show "set files \<subseteq> S" using Cons.prems(2) by simp
      qed (rule Cons.prems(1))
    next
      case False
      let ?acc = "AList.update (base_name_of f)
                 \<lparr>ai_path = f, ai_type = detect_archive_type fs f,
                  ai_parts = [f], ai_password = archive_password svc x\<rparr> acc"
      from None False Cons.prems(3) have r: "map_of (prepare_loop svc fs x files ?acc) b = Some a"
        by simp
      show ?thesis
      proof (rule Cons.IH [of ?acc, OF _ _ r])
        show "set files \<subseteq> S" using Cons.prems(2) by simp
      next
        fix b' a'
        assume "map_of ?acc b' = Some a'"
        then show "ai_type a' \<noteq> UNKNOWN \<and> ai_type a' = detect_archive_type fs (ai_path a') \<and>
          base_name_of (ai_path a') = b' \<and> ai_path a' \<in> S \<and> ai_parts a' \<noteq> [] \<and>
          hd (ai_parts a') = ai_path a' \<and> set (ai_parts a') \<subseteq> S"
          using False Cons.prems(1) [of b' a'] Cons.prems(2)
          by (auto simp: update_conv' split: if_splits)
      qed
    qed
  next
    case (Some archive)
    let ?acc = "AList.update (base_name_of f) (archive\<lparr>ai_parts := ai_parts archive @ [f]\<rparr>) acc"
    from Some Cons.prems(3) have r: "map_of (prepare_loop svc fs x files ?acc) b = Some a"
      by simp
    show ?thesis
    proof (rule Cons.IH [of ?acc, OF _ _ r])
      show "set files \<subseteq> S" using Cons.prems(2) by simp
    next
      fix b' a'
      assume "map_of ?acc b' = Some a'"
      then show "ai_type a' \<noteq> UNKNOWN \<and> ai_type a' = detect_archive_type fs (ai_path a') \<and>
          base_name_of (ai_path a') = b' \<and> ai_path a' \<in> S \<and> ai_parts a' \<noteq> [] \<and>
          hd (ai_parts a') = ai_path a' \<and> set (ai_parts a') \<subseteq> S"
        using Some Cons.prems(1) [of b' a'] Cons.prems(1) [of "base_name_of f" archive] Cons.prems(2)
        by (auto simp: update_conv' split: if_splits)
    qed
  qed
qed

lemma prepare_loop_unknown_group:
  assumes "map_of acc b = None"
    and "\<forall>f\<in>set files. base_name_of f = b \<longrightarrow> detect_archive_type fs f = UNKNOWN"
  shows "map_of (prepare_loop svc fs x files acc) b = None"
  using assms
proof (induction files arbitrary: acc)
  case Nil
  then show ?case by simp
next
  case (Cons f files)
  show ?case
  proof (cases "base_name_of f = b")
    case True
    with Cons.prems have "detect_archive_type fs f = UNKNOWN" by simp
    with True Cons.prems(1) have "prepare_loop svc fs x (f # files) acc = prepare_loop svc fs x files acc"
      by simp
    with Cons show ?thesis by simp
  next
    case False
    show ?thesis
    proof (cases "map_of acc (base_name_of f)")
      case None
      with False Cons show ?thesis by (simp add: update_conv')
    next
      case (Some archive)
      with False Cons show ?thesis by (simp add: update_conv')
    qed
  qed
qed

lemma copy2_node_at:
  assumes "is_dir fs temp"
  shows "node_at (snd (copy2 p temp fs)) q =
     (if q = temp @ [name p] \<and> is_file fs p \<and> p \<noteq> temp @ [name p] \<and>
         \<not> is_dir fs (temp @ [name p])
      then node_at fs p else node_at fs q)"
  using assms
  by (auto simp: copy2_def Let_def open_rb_def open_wb_def parent_def is_file_iff node_at_update
      split: option.splits node.splits)

lemma copy_parts_Cons:
  "copy_parts (p # rest) temp fs =
     copy_parts rest temp (if is_multipart_archive p then fs else snd (copy2 p temp fs))"
  by (simp split: prod.splits)

lemma copy_parts_effect:
  assumes "is_dir fs temp" and "\<forall>p\<in>set parts. p \<noteq> temp @ [name p]"
  shows "(\<forall>q. (\<forall>p\<in>set parts. copyable fs temp p \<longrightarrow> q \<noteq> temp @ [name p]) \<longrightarrow>
            node_at (copy_parts parts temp fs) q = node_at fs q) \<and>
         (\<forall>p\<in>set parts. copyable fs temp p \<longrightarrow>
            (\<exists>p'\<in>set parts. copyable fs temp p' \<and> name p' = name p \<and>
               node_at (copy_parts parts temp fs) (temp @ [name p]) = node_at fs p'))"
  using assms
proof (induction parts arbitrary: fs)
  case Nil
  then show ?case by simp
next
  case (Cons p rest)
  let ?fs1 = "if is_multipart_archive p then fs else snd (copy2 p temp fs)"
  let ?fs' = "copy_parts rest temp ?fs1"
  have step: "copy_parts (p # rest) temp fs = ?fs'" by (rule copy_parts_Cons)
  have n1: "node_at ?fs1 q =
      (if q = temp @ [name p] \<and> copyable fs temp p then node_at fs p else node_at fs q)" for q
    using Cons.prems by (auto simp: copy2_node_at copyable_def)
  have keep: "node_at ?fs1 r = node_at fs r" if "r \<noteq> temp @ [name r]" "name r = name p \<or> True"
    and "r \<in> set (p # rest)" for r
  proof (cases "r = temp @ [name p]")
    case True
    then have "name r = name p" by (simp add: name_def)
    with True that(1) show ?thesis by simp
  next
    case False
    then show ?thesis by (simp add: n1)
  qed
  have dir1: "is_dir ?fs1 temp"
    using Cons.prems(1) by (simp add: is_dir_def n1)
  have cp: "copyable ?fs1 temp r \<longleftrightarrow> copyable fs temp r" if "r \<in> set (p # rest)" for r
  proof -
    have a: "node_at ?fs1 r = node_at fs r" using that Cons.prems(2) by (intro keep) auto
    have b: "is_dir ?fs1 (temp @ [name r]) \<longleftrightarrow> is_dir fs (temp @ [name r])"
      by (auto simp: is_dir_def n1 copyable_def is_file_iff)
    show ?thesis using a b by (simp add: copyable_def is_file_iff)
  qed
  have ih: "(\<forall>q. (\<forall>r\<in>set rest. copyable ?fs1 temp r \<longrightarrow> q \<noteq> temp @ [name r]) \<longrightarrow>
            node_at ?fs' q = node_at ?fs1 q) \<and>
         (\<forall>r\<in>set rest. copyable ?fs1 temp r \<longrightarrow>
            (\<exists>r'\<in>set rest. copyable ?fs1 temp r' \<and> name r' = name r \<and>
               node_at ?fs' (temp @ [name r]) = node_at ?fs1 r'))"
    using Cons.prems(2) by (intro Cons.IH dir1) simp
  have frame: "node_at ?fs' q = node_at fs q"
    if "\<forall>r\<in>set (p # rest). copyable fs temp r \<longrightarrow> q \<noteq> temp @ [name r]" for q
  proof -
    from that have "\<forall>r\<in>set rest. copyable ?fs1 temp r \<longrightarrow> q \<noteq> temp @ [name r]"
      by (simp add: cp)
    with ih have "node_at ?fs' q = node_at ?fs1 q" by blast
    also have "\<dots> = node_at fs q" using that by (auto simp: n1)
    finally show ?thesis .
  qed
  have later: "\<exists>r'\<in>set (p # rest). copyable fs temp r' \<and> name r' = name r \<and>
               node_at ?fs' (temp @ [name r]) = node_at fs r'"
    if r: "r \<in> set rest" "copyable fs temp r" for r
  proof -
    from r have "copyable ?fs1 temp r" by (simp add: cp)
    with ih r(1) obtain r' where r': "r' \<in> set rest" "copyable ?fs1 temp r'" "name r' = name r"
      "node_at ?fs' (temp @ [name r]) = node_at ?fs1 r'" by blast
    have "node_at ?fs1 r' = node_at fs r'" using r'(1) Cons.prems(2) by (intro keep) auto
    with r' show ?thesis by (auto simp: cp)
  qed
  have first: "\<exists>r'\<in>set (p # rest). copyable fs temp r' \<and> name r' = name p \<and>
               node_at ?fs' (temp @ [name p]) = node_at fs r'"
    if c: "copyable fs temp p"
  proof (cases "\<exists>r\<in>set rest. copyable fs temp r \<and> name r = name p")
    case True
    then obtain r where "r \<in> set rest" "copyable fs temp r" "name r = name p" by blast
    with later [of r] show ?thesis by auto
  next
    case False
    then have "\<forall>r\<in>set rest. copyable ?fs1 temp r \<longrightarrow> temp @ [name p] \<noteq> temp @ [name r]"
      by (auto simp: cp)
    with ih have "node_at ?fs' (temp @ [name p]) = node_at ?fs1 (temp @ [name p])" by blast
    also have "\<dots> = node_at fs p" using c by (simp add: n1)
    finally show ?thesis using c by auto
  qed
  show ?case
    unfolding step using frame later first by auto
qed

lemma is_multipart_archive_name:
  "name p = name q \<Longrightarrow> is_multipart_archive p = is_multipart_archive q"
  by (simp add: is_multipart_archive_def)

lemma prepare_loop_group:
  "map_of (prepare_loop svc fs x files acc) b =
     (case map_of acc b of
        Some a \<Rightarrow> Some (a\<lparr>ai_parts := ai_parts a @ filter (\<lambda>f. base_name_of f = b) files\<rparr>)
      | None \<Rightarrow>
          (case dropWhile (\<lambda>f. detect_archive_type fs f = UNKNOWN)
                  (filter (\<lambda>f. base_name_of f = b) files) of
             [] \<Rightarrow> None
           | p # rest \<Rightarrow>
               Some \<lparr>ai_path = p, ai_type = detect_archive_type fs p, ai_parts = p # rest,
                     ai_password = archive_password svc x\<rparr>))"
proof (induction files arbitrary: acc)
  case Nil
  show ?case by (simp split: option.splits)
next
  case (Cons f files)
  show ?case
  proof (cases "map_of acc (base_name_of f)")
    case None
    show ?thesis
    proof (cases "detect_archive_type fs f = UNKNOWN")
      case True
      with None show ?thesis by (auto simp: Cons.IH split: option.splits)
    next
      case False
      with None show ?thesis by (auto simp: Cons.IH update_conv' split: option.splits)
    qed
  next
    case (Some archive)
    then show ?thesis by (auto simp: Cons.IH update_conv' split: option.splits)
  qed
qed

lemma prepare_archive_info_group:
  "map_of (prepare_archive_info svc fs x files) b =
     (case dropWhile (\<lambda>f. detect_archive_type fs f = UNKNOWN)
             (filter (\<lambda>f. base_name_of f = b) (sort files)) of
        [] \<Rightarrow> None
      | p # rest \<Rightarrow>
          Some \<lparr>ai_path = p, ai_type = detect_archive_type fs p, ai_parts = p # rest,
                ai_password = archive_password svc x\<rparr>)"
  by (simp add: prepare_archive_info_def prepare_loop_group)

text \<open>
  Claim C1, as stated, fails in its first half: \<open>prepare_archive_info\<close> starts a unit
  only at a file whose header is recognised. A text file alone gives no unit at all, and
  in a group whose first file is a text file and whose second is a Zip archive the unit
  is the Zip archive's, without the text file.
\<close>

theorem unknown_first_file_dropped:
  "detect_archive_type fs_mixed [''src'', ''X'', ''notes.txt''] = UNKNOWN \<and>
   prepare_archive_info svc_nested fs_mixed ''X'' [[''src'', ''X'', ''notes.txt'']] = [] \<and>
   base_name_of [''src'', ''X'', ''notes.txt''] = base_name_of [''src'', ''X'', ''notes.zip''] \<and>
   prepare_archive_info svc_nested fs_mixed ''X'' files_mixed =
     [(''notes'',
       \<lparr>ai_path = [''src'', ''X'', ''notes.zip''], ai_type = ZIP,
        ai_parts = [[''src'', ''X'', ''notes.zip'']], ai_password = ''pw''\<rparr>)]"
  by code_simp

text \<open>
  Claim C1, amended. Collecting: take the files of the item that have the base name \<open>b\<close>,
  in sorted order, and leave out the leading ones whose type is \<open>UNKNOWN\<close>. If nothing is
  left, \<open>prepare_archive_info\<close> has no unit for \<open>b\<close>. Otherwise its unit for \<open>b\<close> has the
  first file left, the first recognised one, as primary file, that file's type as type, and
  as parts all the files left, in this order, whatever the types of the later ones. So
  every unit has a recognised type, the type of its primary file, which is one of the
  item's files, has the unit's base name and is the first of its parts; no unit has type
  \<open>UNKNOWN\<close>, and a base name all of whose files are \<open>UNKNOWN\<close> has no unit. Staging: let a
  unit have type \<open>UNKNOWN\<close>, let the staging directory be a directory, and let no part of
  the unit be the entry of its own name in the staging directory. Then
  \<open>extract_to_target_temp\<close> returns without exception. Call a part copyable when its name
  is no multi-part name, it is a file, and no directory stands under its name in the
  staging directory. For every copyable part the staging directory then holds, under the
  part's name, the content of a copyable part of that name; a part with a multi-part name
  leaves the entry of its name in the staging directory as it was; and nothing changes
  except at the names of the copyable parts in the staging directory.
\<close>

theorem unknown_files_start_no_unit:
  "(\<forall>b. map_of (prepare_archive_info svc fs x files) b =
      (case dropWhile (\<lambda>f. detect_archive_type fs f = UNKNOWN)
              (filter (\<lambda>f. base_name_of f = b) (sort files)) of
         [] \<Rightarrow> None
       | p # rest \<Rightarrow>
           Some \<lparr>ai_path = p, ai_type = detect_archive_type fs p, ai_parts = p # rest,
                 ai_password = archive_password svc x\<rparr>)) \<and>
   (\<forall>b a. map_of (prepare_archive_info svc fs x files) b = Some a \<longrightarrow>
      ai_type a \<noteq> UNKNOWN \<and> ai_type a = detect_archive_type fs (ai_path a) \<and>
      base_name_of (ai_path a) = b \<and> ai_path a \<in> set files \<and>
      hd (ai_parts a) = ai_path a \<and> set (ai_parts a) \<subseteq> set files) \<and>
   ((\<forall>f\<in>set files. base_name_of f = b \<longrightarrow> detect_archive_type fs f = UNKNOWN) \<longrightarrow>
      map_of (prepare_archive_info svc fs x files) b = None) \<and>
   (ai_type archive = UNKNOWN \<longrightarrow> is_dir fs temp_path \<longrightarrow>
    (\<forall>p\<in>set (ai_parts archive). p \<noteq> temp_path @ [name p]) \<longrightarrow>
      (\<exists>fs'. extract_to_target_temp svc archive temp_path fs = (None, fs') \<and>
         (\<forall>p\<in>set (ai_parts archive). copyable fs temp_path p \<longrightarrow>
            (\<exists>p'\<in>set (ai_parts archive). copyable fs temp_path p' \<and> name p' = name p \<and>
               node_at fs' (temp_path @ [name p]) = node_at fs p')) \<and>
         (\<forall>p\<in>set (ai_parts archive). is_multipart_archive p \<longrightarrow>
            node_at fs' (temp_path @ [name p]) = node_at fs (temp_path @ [name p])) \<and>
         (\<forall>q. (\<forall>p\<in>set (ai_parts archive). copyable fs temp_path p \<longrightarrow> q \<noteq> temp_path @ [name p]) \<longrightarrow>
            node_at fs' q = node_at fs q)))"
proof (intro conjI allI impI)
  fix b
  show "map_of (prepare_archive_info svc fs x files) b =
      (case dropWhile (\<lambda>f. detect_archive_type fs f = UNKNOWN)
              (filter (\<lambda>f. base_name_of f = b) (sort files)) of
         [] \<Rightarrow> None
       | p # rest \<Rightarrow>
           Some \<lparr>ai_path = p, ai_type = detect_archive_type fs p, ai_parts = p # rest,
                 ai_password = archive_password svc x\<rparr>)"
    by (rule prepare_archive_info_group)
next
  fix b a
  assume m: "map_of (prepare_archive_info svc fs x files) b = Some a"
  have "ai_type a \<noteq> UNKNOWN \<and> ai_type a = detect_archive_type fs (ai_path a) \<and>
      base_name_of (ai_path a) = b \<and> ai_path a \<in> set files \<and> ai_parts a \<noteq> [] \<and>
      hd (ai_parts a) = ai_path a \<and> set (ai_parts a) \<subseteq> set files"
  proof (rule prepare_loop_invariant [where acc = "[]" and files = "sort files"])
    show "set (sort files) \<subseteq> set files" by simp
    show "map_of (prepare_loop svc fs x (sort files) []) b = Some a"
      using m by (simp add: prepare_archive_info_def)
  qed simp
  note inv = this
  show "ai_type a \<noteq> UNKNOWN" using inv by (rule conjunct1)
  show "ai_type a = detect_archive_type fs (ai_path a)"
    using inv [THEN conjunct2] by (rule conjunct1)
  show "base_name_of (ai_path a) = b"
    using inv [THEN conjunct2, THEN conjunct2] by (rule conjunct1)
  show "ai_path a \<in> set files"
    using inv [THEN conjunct2, THEN conjunct2, THEN conjunct2] by (rule conjunct1)
  show "hd (ai_parts a) = ai_path a"
    using inv [THEN conjunct2, THEN conjunct2, THEN conjunct2, THEN conjunct2, THEN conjunct2]
    by (rule conjunct1)
  show "set (ai_parts a) \<subseteq> set files"
    using inv [THEN conjunct2, THEN conjunct2, THEN conjunct2, THEN conjunct2, THEN conjunct2]
    by (rule conjunct2)
next
  assume "\<forall>f\<in>set files. base_name_of f = b \<longrightarrow> detect_archive_type fs f = UNKNOWN"
  then have "\<forall>f\<in>set (sort files). base_name_of f = b \<longrightarrow> detect_archive_type fs f = UNKNOWN"
    by simp
  then show "map_of (prepare_archive_info svc fs x files) b = None"
    unfolding prepare_archive_info_def by (intro prepare_loop_unknown_group) simp
next
  assume u: "ai_type archive = UNKNOWN" and d: "is_dir fs temp_path"
    and o: "\<forall>p\<in>set (ai_parts archive). p \<noteq> temp_path @ [name p]"
  let ?fs' = "copy_parts (ai_parts archive) temp_path fs"
  note eff = copy_parts_effect [OF d o]
  note frame = eff [THEN conjunct1, THEN spec, THEN mp]
  have multi: "\<forall>p\<in>set (ai_parts archive). is_multipart_archive p \<longrightarrow>
      node_at ?fs' (temp_path @ [name p]) = node_at fs (temp_path @ [name p])"
  proof (intro ballI impI)
    fix p
    assume "p \<in> set (ai_parts archive)" and mp: "is_multipart_archive p"
    show "node_at ?fs' (temp_path @ [name p]) = node_at fs (temp_path @ [name p])"
    proof (rule frame, intro ballI impI)
      fix r
      assume "r \<in> set (ai_parts archive)" and c: "copyable fs temp_path r"
      from c have "\<not> is_multipart_archive r" by (simp add: copyable_def)
      with mp have "name p \<noteq> name r" using is_multipart_archive_name [of p r] by auto
      then show "temp_path @ [name p] \<noteq> temp_path @ [name r]" by simp
    qed
  qed
  have ex: "extract_to_target_temp svc archive temp_path fs = (None, ?fs')"
    using u by (simp add: extract_to_target_temp_def)
  show "\<exists>fs'. extract_to_target_temp svc archive temp_path fs = (None, fs') \<and>
         (\<forall>p\<in>set (ai_parts archive). copyable fs temp_path p \<longrightarrow>
            (\<exists>p'\<in>set (ai_parts archive). copyable fs temp_path p' \<and> name p' = name p \<and>
               node_at fs' (temp_path @ [name p]) = node_at fs p')) \<and>
         (\<forall>p\<in>set (ai_parts archive). is_multipart_archive p \<longrightarrow>
            node_at fs' (temp_path @ [name p]) = node_at fs (temp_path @ [name p])) \<and>
         (\<forall>q. (\<forall>p\<in>set (ai_parts archive). copyable fs temp_path p \<longrightarrow> q \<noteq> temp_path @ [name p]) \<longrightarrow>
            node_at fs' q = node_at fs q)"
    by (rule exI [of _ ?fs'], intro conjI)
       (rule ex, rule eff [THEN conjunct2], rule multi, rule eff [THEN conjunct1])
qed

theorem unknown_files_start_no_unit_witness:
  "sort files_trailing =
     [[''src'', ''X'', ''a.part001.rar''], [''src'', ''X'', ''notes.txt''],
      [''src'', ''X'', ''notes.zip''], [''src'', ''X'', ''notes.zip.txt'']] \<and>
   detect_archive_type fs_trailing [''src'', ''X'', ''notes.txt''] = UNKNOWN \<and>
   detect_archive_type fs_trailing [''src'', ''X'', ''notes.zip''] = ZIP \<and>
   detect_archive_type fs_trailing [''src'', ''X'', ''notes.zip.txt''] = UNKNOWN \<and>
   map_of (prepare_archive_info svc_nested fs_trailing ''X'' files_trailing) ''notes'' =
     Some \<lparr>ai_path = [''src'', ''X'', ''notes.zip''], ai_type = ZIP,
           ai_parts = [[''src'', ''X'', ''notes.zip''], [''src'', ''X'', ''notes.zip.txt'']],
           ai_password = ''pw''\<rparr> \<and>
   map_of (prepare_archive_info svc_nested fs_trailing ''X'' files_trailing) ''a'' = None \<and>
   ai_type unit_unknown = UNKNOWN \<and>
   is_dir fs_mixed [''t3'', ''X''] \<and>
   extract_to_target_temp svc_nested unit_unknown [''t3'', ''X''] fs_mixed = (None, fs_mixed_copied) \<and>
   copyable fs_mixed [''t3'', ''X''] [''src'', ''X'', ''notes.txt''] \<and>
   node_at fs_mixed_copied [''t3'', ''X'', ''notes.txt''] =
     node_at fs_mixed [''src'', ''X'', ''notes.txt''] \<and>
   is_multipart_archive [''src'', ''X'', ''a.part001.rar''] \<and>
   node_at fs_mixed_copied [''t3'', ''X'', ''a.part001.rar''] = None"
proof -
  note inst = unknown_files_start_no_unit [of svc_nested fs_trailing "''X''" files_trailing "''a''"
      unit_unknown "[''t3'', ''X'']"]
  note staged = unknown_files_start_no_unit [of svc_nested fs_mixed "''X''" files_mixed "''a''"
      unit_unknown "[''t3'', ''X'']"]
  have s: "sort files_trailing =
     [[''src'', ''X'', ''a.part001.rar''], [''src'', ''X'', ''notes.txt''],
      [''src'', ''X'', ''notes.zip''], [''src'', ''X'', ''notes.zip.txt'']]"
    by code_simp
  have t: "detect_archive_type fs_trailing [''src'', ''X'', ''notes.txt''] = UNKNOWN"
    "detect_archive_type fs_trailing [''src'', ''X'', ''notes.zip''] = ZIP"
    "detect_archive_type fs_trailing [''src'', ''X'', ''notes.zip.txt''] = UNKNOWN"
    by code_simp+
  have v: "(case dropWhile (\<lambda>f. detect_archive_type fs_trailing f = UNKNOWN)
              (filter (\<lambda>f. base_name_of f = ''notes'') (sort files_trailing)) of
         [] \<Rightarrow> None
       | p # rest \<Rightarrow>
           Some \<lparr>ai_path = p, ai_type = detect_archive_type fs_trailing p, ai_parts = p # rest,
                 ai_password = archive_password svc_nested ''X''\<rparr>) =
     Some \<lparr>ai_path = [''src'', ''X'', ''notes.zip''], ai_type = ZIP,
           ai_parts = [[''src'', ''X'', ''notes.zip''], [''src'', ''X'', ''notes.zip.txt'']],
           ai_password = ''pw''\<rparr>"
    by code_simp
  have first: "map_of (prepare_archive_info svc_nested fs_trailing ''X'' files_trailing) ''notes'' =
     Some \<lparr>ai_path = [''src'', ''X'', ''notes.zip''], ai_type = ZIP,
           ai_parts = [[''src'', ''X'', ''notes.zip''], [''src'', ''X'', ''notes.zip.txt'']],
           ai_password = ''pw''\<rparr>"
    using inst [THEN conjunct1, THEN spec, of "''notes''"] v by (rule trans)
  have g: "\<forall>f\<in>set files_trailing. base_name_of f = ''a'' \<longrightarrow>
      detect_archive_type fs_trailing f = UNKNOWN"
    by code_simp
  have n: "map_of (prepare_archive_info svc_nested fs_trailing ''X'' files_trailing) ''a'' = None"
    using inst [THEN conjunct2, THEN conjunct2, THEN conjunct1] g by (rule mp)
  have u: "ai_type unit_unknown = UNKNOWN" and d: "is_dir fs_mixed [''t3'', ''X'']"
    and o: "\<forall>p\<in>set (ai_parts unit_unknown). p \<noteq> [''t3'', ''X''] @ [name p]"
    by code_simp+
  have e: "extract_to_target_temp svc_nested unit_unknown [''t3'', ''X''] fs_mixed =
      (None, fs_mixed_copied)"
    by code_simp
  from staged [THEN conjunct2, THEN conjunct2, THEN conjunct2, THEN mp, THEN mp, THEN mp, OF u d o] e
  have m: "\<forall>p\<in>set (ai_parts unit_unknown). is_multipart_archive p \<longrightarrow>
      node_at fs_mixed_copied ([''t3'', ''X''] @ [name p]) = node_at fs_mixed ([''t3'', ''X''] @ [name p])"
    by auto
  have i: "is_multipart_archive [''src'', ''X'', ''a.part001.rar'']"
    and c: "copyable fs_mixed [''t3'', ''X''] [''src'', ''X'', ''notes.txt'']"
    by code_simp+
  have "[''src'', ''X'', ''a.part001.rar''] \<in> set (ai_parts unit_unknown)"
    by (simp add: unit_unknown_def)
  with m i have "node_at fs_mixed_copied ([''t3'', ''X''] @ [name [''src'', ''X'', ''a.part001.rar'']]) =
      node_at fs_mixed ([''t3'', ''X''] @ [name [''src'', ''X'', ''a.part001.rar'']])"
    by blast
  then have k: "node_at fs_mixed_copied [''t3'', ''X'', ''a.part001.rar''] = None"
    by (simp add: name_def node_at_def fs_mixed_def)
  have rest: "node_at fs_mixed_copied [''t3'', ''X'', ''notes.txt''] =
     node_at fs_mixed [''src'', ''X'', ''notes.txt'']"
    by code_simp
  show ?thesis
    by (intro conjI) (rule s t first n u d e c rest i k)+
qed


section \<open>Renaming a tree\<close>

lemma apart_append: "apart p q \<Longrightarrow> apart (p @ r) (q @ s)"
  unfolding apart_def
  by (metis prefix_same_cases prefixI prefix_order.trans)

lemma apart_not_under: "apart p q \<Longrightarrow> \<not> prefix p (q @ s)" "apart p q \<Longrightarrow> \<not> prefix q (p @ s)"
  unfolding apart_def
  by (metis prefix_same_cases prefixI)+

lemma apart_nonempty: "apart p q \<Longrightarrow> p \<noteq> [] \<and> q \<noteq> []"
  by (auto simp: apart_def)

lemma map_of_rename_tree:
  assumes "apart src dst"
  shows "map_of (rename_tree src dst fs) q =
     (if prefix dst q then map_of fs (src @ drop (length dst) q)
      else if prefix src q then None else map_of fs q)"
proof (induction fs)
  case Nil
  then show ?case by (simp add: rename_tree_def remove_tree_def)
next
  case (Cons kn fs)
  obtain k n where kn: "kn = (k, n)" by (cases kn)
  have nd: "\<not> prefix dst (src @ r)" for r using assms by (rule apart_not_under(2))
  have ns: "\<not> prefix src (dst @ r)" for r using assms by (rule apart_not_under(1))
  show ?case
  proof (cases "prefix dst k")
    case True
    then have h: "rename_tree src dst (kn # fs) = rename_tree src dst fs"
      by (simp add: rename_tree_def remove_tree_def kn)
    have a: "src @ r \<noteq> k" for r using True nd [of r] by auto
    have b: "\<not> prefix dst q \<Longrightarrow> k \<noteq> q" using True by auto
    show ?thesis unfolding h Cons.IH using a b by (auto simp: kn)
  next
    case False
    show ?thesis
    proof (cases "prefix src k")
      case True
      then obtain r where k: "k = src @ r" by (auto simp: prefix_def)
      have h: "rename_tree src dst (kn # fs) = (dst @ r, n) # rename_tree src dst fs"
        using False by (simp add: rename_tree_def remove_tree_def kn k)
      show ?thesis
      proof (cases "q = dst @ r")
        case True
        then show ?thesis unfolding h by (simp add: kn k)
      next
        case ne: False
        have "src @ drop (length dst) q \<noteq> k" if "prefix dst q"
        proof
          assume e: "src @ drop (length dst) q = k"
          from that obtain s where q: "q = dst @ s" by (auto simp: prefix_def)
          from e q k have "s = r" by simp
          with q ne show False by simp
        qed
        moreover have "q \<noteq> k" if "\<not> prefix src q" using that True by auto
        ultimately show ?thesis unfolding h using ne Cons.IH by (auto simp: kn)
      qed
    next
      case nsk: False
      have h: "rename_tree src dst (kn # fs) = (k, n) # rename_tree src dst fs"
        using False nsk by (simp add: rename_tree_def remove_tree_def kn)
      have a: "src @ r \<noteq> k" for r using nsk by auto
      show ?thesis unfolding h using False nsk a Cons.IH by (auto simp: kn)
    qed
  qed
qed

lemma node_at_rename_tree:
  assumes "apart src dst"
  shows "node_at (rename_tree src dst fs) q =
     (if q = [] then Some Dir
      else if prefix dst q then node_at fs (src @ drop (length dst) q)
      else if prefix src q then None else node_at fs q)"
  using apart_nonempty [OF assms]
  by (simp add: node_at_def map_of_rename_tree [OF assms])



section \<open>Relocation moves the staging directory only\<close>

lemma well_formed_parent:
  "well_formed fs \<Longrightarrow> node_at fs p = Some n \<Longrightarrow> p \<noteq> [] \<Longrightarrow> is_dir fs (parent p)"
  by (auto simp: well_formed_def list_all_iff node_at_def dest!: map_of_SomeD)

lemma well_formed_ancestor:
  "well_formed fs \<Longrightarrow> node_at fs (A @ r) \<noteq> None \<Longrightarrow> r \<noteq> [] \<Longrightarrow> is_dir fs A"
proof (induction r rule: rev_induct)
  case Nil
  then show ?case by simp
next
  case (snoc x r)
  from snoc.prems obtain n where "node_at fs (A @ r @ [x]) = Some n" by auto
  with snoc.prems(1) have d: "is_dir fs (A @ r)"
    using well_formed_parent [of fs "A @ r @ [x]" n] by (simp add: parent_def butlast_append)
  show ?case
  proof (cases "r = []")
    case True
    with d show ?thesis by simp
  next
    case False
    from d have "node_at fs (A @ r) \<noteq> None" by (simp add: is_dir_def)
    with snoc.IH snoc.prems(1) False show ?thesis by simp
  qed
qed

lemma target_item_of_child: "target_item_of svc T D (T @ [nm]) = D @ [nm]"
  by (simp add: target_item_of_def Let_def name_def)

lemma from_staging_remove: "from_staging fs0 T D fs \<Longrightarrow> from_staging fs0 T D (remove_tree p fs)"
  unfolding from_staging_def node_at_remove_tree
  by (auto split: if_splits)

lemma not_prefix_longer: "r \<noteq> [] \<Longrightarrow> \<not> prefix (D @ r) D"
  by (auto simp: prefix_def)

lemma apart_not_above: "apart T D \<Longrightarrow> \<not> prefix (T @ r) D"
proof
  assume a: "apart T D" and "prefix (T @ r) D"
  then have "prefix T D" using prefix_order.trans [of T "T @ r" D] by simp
  with a show False by (simp add: apart_def)
qed

lemma apart_sym: "apart T D \<Longrightarrow> apart D T"
  by (simp add: apart_def)

lemma from_staging_make_dirs:
  assumes "apart T D" and "from_staging fs0 T D fs"
  shows "from_staging fs0 T D (make_dirs (prefixes D) fs)"
  using assms(2) unfolding from_staging_def node_at_make_dirs
  by (simp add: in_set_prefixes not_prefix_longer apart_not_above [OF assms(1)])

lemma from_staging_rename:
  assumes "apart T D" and "from_staging fs0 T D fs"
  shows "from_staging fs0 T D (rename_tree (T @ [nm]) (D @ [nm]) fs)"
proof -
  have ap: "apart (T @ [nm]) (D @ [nm])" using assms(1) by (rule apart_append)
  have nT: "\<not> prefix (D @ [nm]) (T @ r)" for r
    using apart_not_under(2) [OF assms(1), of "[nm]"] apart_not_under(1) [OF apart_sym [OF assms(1)], of r]
    by (metis append.assoc prefix_def)
  have nD: "\<not> prefix (T @ [nm]) (D @ r)" for r
    using apart_not_under(1) [OF assms(1), of r]
    by (metis append.assoc prefix_def)
  show ?thesis
    unfolding from_staging_def
  proof (intro conjI allI impI)
    fix r n
    assume r: "r \<noteq> []" and s: "node_at (rename_tree (T @ [nm]) (D @ [nm]) fs) (D @ r) = Some n"
    show "node_at fs0 (T @ r) = Some n"
    proof (cases "prefix (D @ [nm]) (D @ r)")
      case True
      then obtain r' where r': "r = nm # r'" by (auto simp: prefix_def)
      from s have "node_at fs (T @ r) = Some n"
        by (simp add: node_at_rename_tree [OF ap] r')
      with assms(2) r show ?thesis by (simp add: from_staging_def)
    next
      case False
      with s nD have "node_at fs (D @ r) = Some n"
        by (simp add: node_at_rename_tree [OF ap] split: if_splits)
      with assms(2) r show ?thesis by (simp add: from_staging_def)
    qed
  next
    fix r n
    assume r: "r \<noteq> []" and s: "node_at (rename_tree (T @ [nm]) (D @ [nm]) fs) (T @ r) = Some n"
    from s nT have "node_at fs (T @ r) = Some n"
      by (simp add: node_at_rename_tree [OF ap] split: if_splits)
    with assms(2) r show "node_at fs0 (T @ r) = Some n" by (simp add: from_staging_def)
  qed
qed


lemma move_item_cases:
  assumes ap: "apart T D" and m: "move_item svc T D (T @ [nm]) fs = (r, fs')"
  obtains (stopped) fa where "r \<noteq> None" "fa = fs \<or> fa = remove_tree (D @ [nm]) fs"
      "fs' = fa \<or> fs' = make_dirs (prefixes D) fa"
    | (moved) fa where "r = None" "fa = fs \<or> fa = remove_tree (D @ [nm]) fs"
      "path_exists (make_dirs (prefixes D) fa) (T @ [nm])"
      "fs' = rename_tree (T @ [nm]) (D @ [nm]) (make_dirs (prefixes D) fa)"
proof -
  let ?ti = "D @ [nm]" and ?item = "T @ [nm]"
  have ne: "?item \<noteq> ?ti" using ap by (auto simp: apart_def)
  from m have m': "then_do (if path_exists fs ?ti then rmtree ?ti fs else (None, fs))
      (\<lambda>fs1. then_do (mkdir_parents D fs1) (shutil_move (rename_refused svc) ?item ?ti)) = (r, fs')"
    by (simp add: move_item_def target_item_of_child parent_def Let_def)
  from m' show ?thesis
  proof (cases rule: then_do_cases)
    case (first e)
    then have "fs' = fs" by (auto simp: rmtree_def split: if_splits option.splits node.splits)
    with first show ?thesis by (intro stopped [of fs]) auto
  next
    case (second fa)
    from second(1) have fa: "fa = fs \<or> fa = remove_tree ?ti fs"
      by (auto simp: rmtree_def split: if_splits option.splits node.splits)
    from second(1) have gone: "\<not> path_exists fa ?ti"
      by (auto simp: rmtree_def path_exists_def node_at_remove_tree
          split: if_splits option.splits node.splits)
    from second(2) show ?thesis
    proof (cases rule: then_do_cases)
      case (first e)
      then have "fs' = fa" by (auto simp: mkdir_parents_def split: if_splits)
      with first fa show ?thesis by (intro stopped [of fa]) auto
    next
      case inner: (second fb)
      from inner(1) have fb: "fb = make_dirs (prefixes D) fa"
        by (auto simp: mkdir_parents_def split: if_splits)
      have gone': "\<not> path_exists fb ?ti"
        using gone by (simp add: fb path_exists_def node_at_make_dirs in_set_prefixes not_prefix_longer)
      then have nd: "\<not> is_dir fb ?ti" by (simp add: path_exists_def is_dir_def)
      show ?thesis
      proof (cases r)
        case None
        with inner(2) nd gone' ne have "path_exists fb ?item \<and> fs' = rename_tree ?item ?ti fb"
          by (auto simp: shutil_move_def Let_def split: if_splits)
        with None fa fb show ?thesis by (intro moved [of fa]) auto
      next
        case (Some e)
        with inner(2) nd have "fs' = fb"
          by (auto simp: shutil_move_def Let_def split: if_splits)
        with Some fa fb show ?thesis by (intro stopped [of fa]) auto
      qed
    qed
  qed
qed

lemma from_staging_move_item:
  assumes "apart T D" and "from_staging fs0 T D fs"
    and "move_item svc T D (T @ [nm]) fs = (r, fs')"
  shows "from_staging fs0 T D fs'"
  using assms(1,3)
proof (cases rule: move_item_cases)
  case (stopped fa)
  from stopped(2) assms(2) have "from_staging fs0 T D fa"
    by (auto intro: from_staging_remove)
  with stopped(3) assms(1) show ?thesis by (auto intro: from_staging_make_dirs)
next
  case (moved fa)
  from moved(2) assms(2) have "from_staging fs0 T D fa"
    by (auto intro: from_staging_remove)
  with moved(4) assms(1) show ?thesis
    by (auto intro: from_staging_make_dirs from_staging_rename)
qed

lemma child_shape: "item \<noteq> [] \<Longrightarrow> parent item = T \<Longrightarrow> item = T @ [name item]"
  using append_butlast_last_id [of item] by (auto simp: parent_def name_def)

lemma from_staging_move_items:
  assumes "apart T D" and "\<forall>item\<in>set items. item \<noteq> [] \<and> parent item = T"
    and "from_staging fs0 T D fs"
    and "move_items svc T D items fs = (r, fs')"
  shows "from_staging fs0 T D fs'"
  using assms(2-4)
proof (induction items arbitrary: fs)
  case Nil
  then show ?case by simp
next
  case (Cons item items)
  from Cons.prems(1) have sh: "item = T @ [name item]" by (simp add: child_shape)
  obtain r1 fs1 where s: "move_item svc T D item fs = (r1, fs1)" by (cases "move_item svc T D item fs")
  have j1: "from_staging fs0 T D fs1"
    using assms(1) Cons.prems(2) s sh from_staging_move_item [of T D fs0 fs svc "name item" r1 fs1]
    by simp
  show ?case
  proof (cases r1)
    case None
    with Cons.prems(3) s have "move_items svc T D items fs1 = (r, fs')" by (simp add: then_do_def)
    with Cons.IH [of fs1] Cons.prems(1) j1 show ?thesis by simp
  next
    case (Some e)
    with Cons.prems(3) s have "fs' = fs1" by (simp add: then_do_def)
    with j1 show ?thesis by simp
  qed
qed


lemma prepare_dst_effect:
  assumes "is_dir fs D \<or> (\<forall>q. strict_prefix D q \<longrightarrow> node_at fs q = None)"
    and "prepare_dst D fs = (r1, fs1)"
  shows "strict_prefix D q \<Longrightarrow> node_at fs1 q = None"
    and "\<not> prefix q D \<Longrightarrow> \<not> prefix D q \<Longrightarrow> node_at fs1 q = node_at fs q"
proof -
  obtain ra fa where a: "(if path_exists fs D then rmtree D fs else (None, fs)) = (ra, fa)"
    by (cases "if path_exists fs D then rmtree D fs else (None, fs)")
  have fa: "fa = fs \<or> fa = remove_tree D fs"
    using a by (auto simp: rmtree_def split: if_splits option.splits node.splits)
  have below: "node_at fa q = None" if "strict_prefix D q" for q
  proof (cases "is_dir fs D")
    case True
    then have "fa = remove_tree D fs"
      using a by (auto simp: rmtree_def path_exists_def is_dir_def)
    with that show ?thesis by (auto simp: node_at_remove_tree strict_prefix_def)
  next
    case False
    with assms(1) that have "node_at fs q = None" by blast
    with fa show ?thesis by (auto simp: node_at_remove_tree)
  qed
  have same: "node_at fa q = node_at fs q" if "\<not> prefix D q" for q
    using fa that by (auto simp: node_at_remove_tree)
  have fs1: "fs1 = fa \<or> fs1 = make_dirs (prefixes D) fa"
    using assms(2) a
    by (auto simp: prepare_dst_def then_do_def mkdir_parents_def split: option.splits if_splits)
  show "strict_prefix D q \<Longrightarrow> node_at fs1 q = None"
    using fs1 below [of q]
    by (auto simp: node_at_make_dirs in_set_prefixes strict_prefix_def)
  show "\<not> prefix q D \<Longrightarrow> \<not> prefix D q \<Longrightarrow> node_at fs1 q = node_at fs q"
    using fs1 same [of q] by (auto simp: node_at_make_dirs in_set_prefixes)
qed

lemma prepare_dst_from_staging:
  assumes "apart T D"
    and "is_dir fs D \<or> (\<forall>q. strict_prefix D q \<longrightarrow> node_at fs q = None)"
    and "prepare_dst D fs = (r1, fs1)"
  shows "from_staging fs T D fs1"
  unfolding from_staging_def
proof (intro conjI allI impI)
  fix r n
  assume "r \<noteq> []" and s: "node_at fs1 (D @ r) = Some n"
  then have "strict_prefix D (D @ r)" by (simp add: strict_prefix_def)
  with prepare_dst_effect(1) [OF assms(2,3)] s show "node_at fs (T @ r) = Some n" by simp
next
  fix r n
  assume "r \<noteq> []" and s: "node_at fs1 (T @ r) = Some n"
  have "\<not> prefix (T @ r) D" using assms(1) by (rule apart_not_above)
  moreover have "\<not> prefix D (T @ r)" using assms(1) by (rule apart_not_under(2))
  ultimately have "node_at fs1 (T @ r) = node_at fs (T @ r)"
    by (rule prepare_dst_effect(2) [OF assms(2,3)])
  with s show "node_at fs (T @ r) = Some n" by simp
qed

lemma iterdir_children:
  "iterdir fs T = Inr items \<Longrightarrow> \<forall>item\<in>set items. item \<noteq> [] \<and> parent item = T"
  by (auto simp: iterdir_def split: option.splits node.splits)

lemma move_to_target_steps:
  assumes "move_to_target svc T x src (fs, h) = (r, fs', h')" and "contains_files fs T"
  obtains (raised_early) r1 where "prepare_dst (dst_path_of svc x) fs = (r1, fs')" "r \<noteq> None" "h' = h"
    | (raised_late) fs1 items where "prepare_dst (dst_path_of svc x) fs = (None, fs1)"
        "iterdir fs1 T = Inr items" "move_items svc T (dst_path_of svc x) items fs1 = (r, fs')"
        "r \<noteq> None" "h' = h"
    | (completed) fs1 items where "prepare_dst (dst_path_of svc x) fs = (None, fs1)"
        "iterdir fs1 T = Inr items" "move_items svc T (dst_path_of svc x) items fs1 = (None, fs')"
        "r = None" "h' = save_history x src (dst_path_of svc x) h"
proof -
  obtain r1 fs1 where p: "prepare_dst (dst_path_of svc x) fs = (r1, fs1)"
    by (cases "prepare_dst (dst_path_of svc x) fs")
  show ?thesis
  proof (cases r1)
    case (Some e)
    with assms p have "fs' = fs1" "r \<noteq> None" "h' = h" by (auto simp: move_to_target_def)
    with p show ?thesis by (intro raised_early [of r1]) auto
  next
    case None
    show ?thesis
    proof (cases "iterdir fs1 T")
      case (Inl e)
      with assms p None have "fs' = fs1" "r \<noteq> None" "h' = h" by (auto simp: move_to_target_def)
      with p show ?thesis by (intro raised_early [of r1]) auto
    next
      case (Inr items)
      obtain r2 fs2 where mv: "move_items svc T (dst_path_of svc x) items fs1 = (r2, fs2)"
        by (cases "move_items svc T (dst_path_of svc x) items fs1")
      show ?thesis
      proof (cases r2)
        case n2: None
        with assms p None Inr mv have "fs' = fs2" "r = None"
          "h' = save_history x src (dst_path_of svc x) h"
          by (auto simp: move_to_target_def)
        with p None Inr mv n2 show ?thesis by (intro completed [of fs1 items]) auto
      next
        case (Some e)
        with assms p None Inr mv have "fs' = fs2" "r = r2" "h' = h"
          by (auto simp: move_to_target_def)
        with p None Inr mv Some show ?thesis by (intro raised_late [of fs1 items]) auto
      qed
    qed
  qed
qed

lemma move_to_target_from_staging:
  assumes "apart T (dst_path_of svc x)"
    and "is_dir fs (dst_path_of svc x) \<or>
         (\<forall>q. strict_prefix (dst_path_of svc x) q \<longrightarrow> node_at fs q = None)"
    and "contains_files fs T"
    and "move_to_target svc T x src (fs, h) = (r, fs', h')"
  shows "from_staging fs T (dst_path_of svc x) fs'"
  using assms(4,3)
proof (cases rule: move_to_target_steps)
  case (raised_early r1)
  with assms(1,2) show ?thesis by (auto intro: prepare_dst_from_staging)
next
  case (raised_late fs1 items)
  from assms(1,2) raised_late(1) have "from_staging fs T (dst_path_of svc x) fs1"
    by (rule prepare_dst_from_staging)
  with assms(1) iterdir_children [OF raised_late(2)] raised_late(3) show ?thesis
    by (intro from_staging_move_items [of T "dst_path_of svc x" items fs fs1 svc r fs']) auto
next
  case (completed fs1 items)
  from assms(1,2) completed(1) have "from_staging fs T (dst_path_of svc x) fs1"
    by (rule prepare_dst_from_staging)
  with assms(1) iterdir_children [OF completed(2)] completed(3) show ?thesis
    by (intro from_staging_move_items [of T "dst_path_of svc x" items fs fs1 svc None fs']) auto
qed


section \<open>Relocation with skipped parent levels: claim C10\<close>

text \<open>
  Claim C10. Let \<open>skip_parent_levels\<close> be positive, the staging directory \<open>T\<close> hold at least one
  file, the target root be a directory and \<open>T\<close> and the target root be apart. Then
  \<open>move_to_target\<close> first prepares the target root itself as destination, and after this
  step, before any item is moved, nothing is left below the target root: every entry that
  was there is deleted, whatever its name. And whether the relocation then completes or
  raises, every entry below the target root afterwards is an entry that came from the
  staging directory; nothing of the former content of the target root is there any more.
\<close>

theorem relocation_empties_target_root:
  assumes "0 < skip_parent_levels (path_config svc)"
    and "contains_files fs T"
    and "is_dir fs (target_dir (path_config svc))"
    and "apart T (target_dir (path_config svc))"
    and "move_to_target svc T x src (fs, h) = (r, fs', h')"
  shows "(\<exists>r1 fs1. prepare_dst (target_dir (path_config svc)) fs = (r1, fs1) \<and>
            (\<forall>q. strict_prefix (target_dir (path_config svc)) q \<longrightarrow> node_at fs1 q = None)) \<and>
         (\<forall>rel n. rel \<noteq> [] \<longrightarrow> node_at fs' (target_dir (path_config svc) @ rel) = Some n \<longrightarrow>
            node_at fs (T @ rel) = Some n)"
proof -
  have d: "dst_path_of svc x = target_dir (path_config svc)"
    using assms(1) by (simp add: dst_path_of_def)
  obtain r1 fs1 where p: "prepare_dst (target_dir (path_config svc)) fs = (r1, fs1)"
    by (cases "prepare_dst (target_dir (path_config svc)) fs")
  have e: "\<forall>q. strict_prefix (target_dir (path_config svc)) q \<longrightarrow> node_at fs1 q = None"
    using prepare_dst_effect(1) [OF _ p] assms(3) by blast
  have "from_staging fs T (target_dir (path_config svc)) fs'"
    using move_to_target_from_staging [of T svc x fs src h r fs' h'] assms(2-5) by (simp add: d)
  then have "\<forall>rel n. rel \<noteq> [] \<longrightarrow> node_at fs' (target_dir (path_config svc) @ rel) = Some n \<longrightarrow>
            node_at fs (T @ rel) = Some n"
    by (simp add: from_staging_def)
  with p e show ?thesis by blast
qed


theorem relocation_empties_target_root_witness:
  "0 < skip_parent_levels (path_config (svc_skip 1)) \<and>
   contains_files fs_staged [''t3'', ''X''] \<and>
   is_dir fs_staged (target_dir (path_config (svc_skip 1))) \<and>
   apart [''t3'', ''X''] (target_dir (path_config (svc_skip 1))) \<and>
   move_to_target (svc_skip 1) [''t3'', ''X''] ''X'' [''src'', ''X''] (fs_staged, []) =
     (None, fs_relocated,
      [\<lparr>h_id = ''X'', h_src_path = [''src'', ''X''], h_dst_path = [''target'']\<rparr>]) \<and>
   node_at fs_staged [''target'', ''old'', ''keep.txt''] = Some (File [7]) \<and>
   node_at fs_staged [''t3'', ''X'', ''old'', ''keep.txt''] = None \<and>
   node_at fs_relocated [''target'', ''old'', ''keep.txt''] = None"
proof -
  have h1: "0 < skip_parent_levels (path_config (svc_skip 1))"
    and h2: "contains_files fs_staged [''t3'', ''X'']"
    and h3: "is_dir fs_staged (target_dir (path_config (svc_skip 1)))"
    and h4: "apart [''t3'', ''X''] (target_dir (path_config (svc_skip 1)))"
    by code_simp+
  have h5: "move_to_target (svc_skip 1) [''t3'', ''X''] ''X'' [''src'', ''X''] (fs_staged, []) =
     (None, fs_relocated,
      [\<lparr>h_id = ''X'', h_src_path = [''src'', ''X''], h_dst_path = [''target'']\<rparr>])"
    by code_simp
  have t: "target_dir (path_config (svc_skip 1)) = [''target'']"
    by (simp add: svc_skip_def config_demo_def)
  have o: "node_at fs_staged [''target'', ''old'', ''keep.txt''] = Some (File [7])"
    and s: "node_at fs_staged [''t3'', ''X'', ''old'', ''keep.txt''] = None"
    by code_simp+
  from relocation_empties_target_root [OF h1 h2 h3 h4 h5]
  have "\<forall>rel n. rel \<noteq> [] \<longrightarrow> node_at fs_relocated ([''target''] @ rel) = Some n \<longrightarrow>
      node_at fs_staged ([''t3'', ''X''] @ rel) = Some n"
    by (simp add: t)
  then have "\<forall>n. node_at fs_relocated ([''target''] @ [''old'', ''keep.txt'']) = Some n \<longrightarrow>
      node_at fs_staged ([''t3'', ''X''] @ [''old'', ''keep.txt'']) = Some n"
    by blast
  with s have "node_at fs_relocated [''target'', ''old'', ''keep.txt''] = None"
    by (cases "node_at fs_relocated [''target'', ''old'', ''keep.txt'']") simp_all
  with h1 h2 h3 h4 h5 o s show ?thesis by simp
qed



section \<open>A completed relocation moves everything\<close>

lemma moved_names_move_item:
  assumes ap: "apart T D" and k: "moved_names fs0 T D names fs"
    and m: "move_item svc T D (T @ [nm]) fs = (None, fs')"
  shows "moved_names fs0 T D (insert nm names) fs'"
  using ap m
proof (cases rule: move_item_cases)
  case (stopped fa)
  then show ?thesis by simp
next
  case (moved fa)
  let ?fb = "make_dirs (prefixes D) fa"
  have apn: "apart (T @ [nm]) (D @ [nm])" using ap by (rule apart_append)
  have nT: "\<not> prefix (D @ [nm]) (T @ r)" for r
    using apart_not_under(1) [OF apart_sym [OF ap], of r] by (metis append.assoc prefix_def)
  have nD: "\<not> prefix (T @ [nm]) (D @ r)" for r
    using apart_not_under(1) [OF ap, of r] by (metis append.assoc prefix_def)
  have stag: "node_at ?fb (T @ r) = node_at fs (T @ r)" for r
    using moved(2) nT [of r]
    by (auto simp: node_at_make_dirs in_set_prefixes apart_not_above [OF ap] node_at_remove_tree)
  have targ: "node_at ?fb (D @ nm' # rest) = node_at fs (D @ nm' # rest)" if "nm' \<noteq> nm" for nm' rest
    using moved(2) that
    by (auto simp: node_at_make_dirs in_set_prefixes not_prefix_longer node_at_remove_tree)
  have fresh: "nm \<notin> names"
  proof
    assume "nm \<in> names"
    with k have "node_at fs (T @ nm # []) = None" unfolding moved_names_def by blast
    moreover from moved(3) have "node_at fs (T @ [nm]) \<noteq> None"
      using stag [of "[nm]"] by (simp add: path_exists_def)
    ultimately show False by simp
  qed
  have rn: "node_at fs' q =
     (if q = [] then Some Dir
      else if prefix (D @ [nm]) q then node_at ?fb ((T @ [nm]) @ drop (length (D @ [nm])) q)
      else if prefix (T @ [nm]) q then None else node_at ?fb q)" for q
    unfolding moved(4) by (rule node_at_rename_tree [OF apn])
  show ?thesis
    unfolding moved_names_def
  proof (intro allI conjI impI)
    fix nm' rest
    assume "nm' \<in> insert nm names"
    show "node_at fs' (T @ nm' # rest) = None"
    proof (cases "nm' = nm")
      case True
      then show ?thesis using nT [of "nm' # rest"] by (simp add: rn)
    next
      case False
      with \<open>nm' \<in> insert nm names\<close> have "nm' \<in> names" by simp
      with k have "node_at fs (T @ nm' # rest) = None" unfolding moved_names_def by blast
      then show ?thesis using False nT [of "nm' # rest"] stag [of "nm' # rest"] by (simp add: rn)
    qed
  next
    fix nm' rest
    assume a: "nm' \<in> insert nm names"
    show "node_at fs' (D @ nm' # rest) = node_at fs0 (T @ nm' # rest)"
    proof (cases "nm' = nm")
      case True
      have "node_at fs' (D @ nm # rest) = node_at ?fb (T @ nm # rest)" by (simp add: rn)
      also have "\<dots> = node_at fs (T @ nm # rest)" by (rule stag)
      also have "\<dots> = node_at fs0 (T @ nm # rest)"
        using k fresh unfolding moved_names_def by blast
      finally show ?thesis using True by simp
    next
      case False
      with a have "nm' \<in> names" by simp
      with k have "node_at fs (D @ nm' # rest) = node_at fs0 (T @ nm' # rest)"
        unfolding moved_names_def by blast
      then show ?thesis using False nD [of "nm' # rest"] targ [of nm' rest] by (simp add: rn)
    qed
  next
    fix nm' rest
    assume a: "nm' \<notin> insert nm names"
    then have "nm' \<noteq> nm" "nm' \<notin> names" by simp_all
    with k have "node_at fs (T @ nm' # rest) = node_at fs0 (T @ nm' # rest)"
      unfolding moved_names_def by blast
    then show "node_at fs' (T @ nm' # rest) = node_at fs0 (T @ nm' # rest)"
      using \<open>nm' \<noteq> nm\<close> nT [of "nm' # rest"] stag [of "nm' # rest"] by (simp add: rn)
  qed
qed

lemma moved_names_move_items:
  assumes "apart T D" and "\<forall>item\<in>set items. item \<noteq> [] \<and> parent item = T"
    and "moved_names fs0 T D names fs"
    and "move_items svc T D items fs = (None, fs')"
  shows "moved_names fs0 T D (names \<union> name ` set items) fs'"
  using assms(2-4)
proof (induction items arbitrary: fs names)
  case Nil
  then show ?case by simp
next
  case (Cons item items)
  from Cons.prems(1) have sh: "item = T @ [name item]" by (simp add: child_shape)
  from Cons.prems(3) obtain fs1 where s: "move_item svc T D item fs = (None, fs1)"
    and rest: "move_items svc T D items fs1 = (None, fs')"
    by (auto simp: then_do_None)
  have "moved_names fs0 T D (insert (name item) names) fs1"
    using assms(1) Cons.prems(2) s sh moved_names_move_item [of T D fs0 names fs svc "name item" fs1]
    by simp
  with Cons.IH [of "insert (name item) names" fs1] Cons.prems(1) rest
  have "moved_names fs0 T D (insert (name item) names \<union> name ` set items) fs'" by simp
  then show ?case by simp
qed

lemma moved_names_start: "moved_names fs T D {} fs"
  by (simp add: moved_names_def)


lemma well_formed_below:
  assumes "well_formed fs"
  shows "is_dir fs D \<or> (\<forall>q. strict_prefix D q \<longrightarrow> node_at fs q = None)"
proof (cases "is_dir fs D")
  case True
  then show ?thesis by simp
next
  case False
  have "node_at fs q = None" if "strict_prefix D q" for q
  proof (rule ccontr)
    assume n: "node_at fs q \<noteq> None"
    from that obtain r where "q = D @ r" "r \<noteq> []" by (auto simp: strict_prefix_def prefix_def)
    with assms n have "is_dir fs D" using well_formed_ancestor [of fs D r] by simp
    with False show False by simp
  qed
  then show ?thesis by simp
qed

lemma iterdir_lists_children:
  assumes "iterdir fs T = Inr items" and "node_at fs (T @ [nm]) \<noteq> None"
  shows "nm \<in> name ` set items"
proof -
  from assms(2) obtain n where "map_of fs (T @ [nm]) = Some n" by (auto simp: node_at_def)
  then have "(T @ [nm], n) \<in> set fs" by (rule map_of_SomeD)
  then have "T @ [nm] \<in> set (map fst fs)" by force
  moreover from assms(1) have "items = filter (\<lambda>p. p \<noteq> [] \<and> parent p = T) (map fst fs)"
    by (auto simp: iterdir_def split: option.splits node.splits)
  ultimately have "T @ [nm] \<in> set items" by (simp add: parent_def)
  then have "name (T @ [nm]) \<in> name ` set items" by (rule imageI)
  then show ?thesis by (simp add: name_def)
qed

lemma staging_fully_moved:
  assumes wf: "well_formed fs" and ap: "apart T D"
    and prep: "prepare_dst D fs = (None, fs1)"
    and it: "iterdir fs1 T = Inr items"
    and mv: "move_items svc T D items fs1 = (None, fs')"
  shows "rel \<noteq> [] \<Longrightarrow> node_at fs' (T @ rel) = None"
    and "rel \<noteq> [] \<Longrightarrow> node_at fs' (D @ rel) = node_at fs (T @ rel)"
    and "\<not> contains_files fs' T"
proof -
  note below = well_formed_below [OF wf, of D]
  have st: "node_at fs1 (T @ r) = node_at fs (T @ r)" for r
    using prepare_dst_effect(2) [OF below prep, of "T @ r"] apart_not_above [OF ap, of r]
      apart_not_under(2) [OF ap, of r] by simp
  have k: "moved_names fs1 T D (name ` set items) fs'"
    using moved_names_move_items [OF ap iterdir_children [OF it] moved_names_start mv] by simp
  have j1: "from_staging fs T D fs1" using ap below prep by (rule prepare_dst_from_staging)
  have j: "from_staging fs T D fs'"
    using ap iterdir_children [OF it] j1 mv by (rule from_staging_move_items)
  have closed: "nm \<in> name ` set items" if "node_at fs (T @ nm # rest) \<noteq> None" for nm rest
  proof -
    have "node_at fs (T @ [nm]) \<noteq> None"
    proof (cases "rest = []")
      case True
      with that show ?thesis by simp
    next
      case False
      with wf that have "is_dir fs (T @ [nm])"
        using well_formed_ancestor [of fs "T @ [nm]" rest] by simp
      then show ?thesis by (simp add: is_dir_def)
    qed
    then have "node_at fs1 (T @ [nm]) \<noteq> None" by (simp add: st)
    with it show ?thesis by (rule iterdir_lists_children)
  qed
  have both: "node_at fs' (T @ rel) = None \<and> node_at fs' (D @ rel) = node_at fs (T @ rel)"
    if "rel \<noteq> []" for rel
  proof -
    from that obtain nm rest where rel: "rel = nm # rest" by (cases rel) auto
    show ?thesis
    proof (cases "nm \<in> name ` set items")
      case True
      with k show ?thesis unfolding moved_names_def rel by (simp add: st)
    next
      case False
      with closed [of nm rest] have none: "node_at fs (T @ nm # rest) = None" by blast
      from k False have "node_at fs' (T @ nm # rest) = node_at fs1 (T @ nm # rest)"
        unfolding moved_names_def by blast
      with none have a: "node_at fs' (T @ nm # rest) = None" by (simp add: st)
      have b: "node_at fs' (D @ nm # rest) = None"
      proof (rule ccontr)
        assume "node_at fs' (D @ nm # rest) \<noteq> None"
        then obtain n where "node_at fs' (D @ nm # rest) = Some n" by auto
        with j have "node_at fs (T @ nm # rest) = Some n" unfolding from_staging_def by blast
        with none show False by simp
      qed
      from a b none show ?thesis by (simp add: rel)
    qed
  qed
  show "rel \<noteq> [] \<Longrightarrow> node_at fs' (T @ rel) = None" using both by blast
  show "rel \<noteq> [] \<Longrightarrow> node_at fs' (D @ rel) = node_at fs (T @ rel)" using both by blast
  have "\<not> is_file fs' p" if "p \<in> set (rglob fs' T)" for p
  proof -
    from that have "strict_prefix T p" by (auto simp: rglob_def split: if_splits)
    then obtain r where "p = T @ r" "r \<noteq> []" by (auto simp: strict_prefix_def prefix_def)
    with both [of r] show ?thesis by (simp add: is_file_iff)
  qed
  then show "\<not> contains_files fs' T" by (auto simp: contains_files_def list_ex_iff)
qed


section \<open>History records: claim C5\<close>

text \<open>
  Claim C5. \<open>move_to_target\<close> is the only place that writes a history record. If it raises,
  the history is unchanged. If the staging directory holds no file, nothing is moved and
  nothing is recorded. If it returns and the staging directory held a file, the history
  grows by exactly one record, for this item, its source and its destination. And a
  changed history implies that the relocation returned without exception and, for a well
  formed file system whose staging directory and destination are apart, that the
  relocation is complete: no file is left in the staging directory, nothing is left below
  it, and every entry that was below it is at the same relative path below the
  destination.
\<close>

theorem history_written_after_full_relocation:
  assumes "move_to_target svc T x src (fs, h) = (r, fs', h')"
  shows "(r \<noteq> None \<longrightarrow> h' = h) \<and>
         (\<not> contains_files fs T \<longrightarrow> r = None \<and> fs' = fs \<and> h' = h) \<and>
         (r = None \<and> contains_files fs T \<longrightarrow>
            h' = h @ [\<lparr>h_id = x, h_src_path = src, h_dst_path = dst_path_of svc x\<rparr>]) \<and>
         (h' \<noteq> h \<longrightarrow> r = None \<and> contains_files fs T \<and>
            (well_formed fs \<and> apart T (dst_path_of svc x) \<longrightarrow>
               \<not> contains_files fs' T \<and>
               (\<forall>rel. rel \<noteq> [] \<longrightarrow>
                  node_at fs' (T @ rel) = None \<and>
                  node_at fs' (dst_path_of svc x @ rel) = node_at fs (T @ rel))))"
proof (cases "contains_files fs T")
  case False
  with assms show ?thesis by (simp add: move_to_target_def)
next
  case True
  from assms True show ?thesis
  proof (cases rule: move_to_target_steps)
    case (raised_early r1)
    then show ?thesis using True by simp
  next
    case (raised_late fs1 items)
    then show ?thesis using True by simp
  next
    case (completed fs1 items)
    have full: "\<not> contains_files fs' T \<and>
               (\<forall>rel. rel \<noteq> [] \<longrightarrow>
                  node_at fs' (T @ rel) = None \<and>
                  node_at fs' (dst_path_of svc x @ rel) = node_at fs (T @ rel))"
      if "well_formed fs" "apart T (dst_path_of svc x)"
      using staging_fully_moved [OF that completed(1-3)] by blast
    from completed(4,5) True full show ?thesis by (simp add: save_history_def)
  qed
qed

theorem history_written_after_full_relocation_witness:
  "move_to_target (svc_skip 0) [''t3'', ''X''] ''X'' [''src'', ''X''] (fs_two_items, []) =
     (None, fs_two_moved,
      [\<lparr>h_id = ''X'', h_src_path = [''src'', ''X''], h_dst_path = [''target'', ''X'']\<rparr>]) \<and>
   well_formed fs_two_items \<and>
   apart [''t3'', ''X''] (dst_path_of (svc_skip 0) ''X'') \<and>
   \<not> contains_files fs_two_moved [''t3'', ''X''] \<and>
   node_at fs_two_moved (dst_path_of (svc_skip 0) ''X'' @ [''b.txt'']) =
     node_at fs_two_items ([''t3'', ''X''] @ [''b.txt'']) \<and>
   move_to_target svc_refusing [''t3'', ''X''] ''X'' [''src'', ''X''] (fs_two_items, []) =
     (Some OSError, fs_two_partial, []) \<and>
   is_file fs_two_partial [''target'', ''X'', ''a.txt''] \<and>
   is_file fs_two_partial [''t3'', ''X'', ''b.txt'']"
proof -
  have h1: "move_to_target (svc_skip 0) [''t3'', ''X''] ''X'' [''src'', ''X''] (fs_two_items, []) =
     (None, fs_two_moved,
      [\<lparr>h_id = ''X'', h_src_path = [''src'', ''X''], h_dst_path = [''target'', ''X'']\<rparr>])"
    by code_simp
  have h2: "move_to_target svc_refusing [''t3'', ''X''] ''X'' [''src'', ''X''] (fs_two_items, []) =
     (Some OSError, fs_two_partial, [])"
    by code_simp
  have w: "well_formed fs_two_items" and a: "apart [''t3'', ''X''] (dst_path_of (svc_skip 0) ''X'')"
    by code_simp+
  have f: "is_file fs_two_partial [''target'', ''X'', ''a.txt'']"
    "is_file fs_two_partial [''t3'', ''X'', ''b.txt'']"
    by code_simp+
  from history_written_after_full_relocation [OF h1] w a
  have "\<not> contains_files fs_two_moved [''t3'', ''X''] \<and>
     (\<forall>rel. rel \<noteq> [] \<longrightarrow>
        node_at fs_two_moved ([''t3'', ''X''] @ rel) = None \<and>
        node_at fs_two_moved (dst_path_of (svc_skip 0) ''X'' @ rel) =
          node_at fs_two_items ([''t3'', ''X''] @ rel))"
    by simp
  then have "\<not> contains_files fs_two_moved [''t3'', ''X'']"
    and "node_at fs_two_moved (dst_path_of (svc_skip 0) ''X'' @ [''b.txt'']) =
     node_at fs_two_items ([''t3'', ''X''] @ [''b.txt''])"
    by simp_all
  moreover from history_written_after_full_relocation [OF h2]
  have "([] :: ledger) = []" by simp
  ultimately show ?thesis using h1 h2 w a f by simp
qed

end
